(* ===== verification/Prelude.thy ===== *)
theory Prelude
  imports Main "HOL-Library.Word" "HOL-Library.Monad_Syntax"
begin

text \<open>
  Shared vocabulary of the development: machine integers at their width, the
  propagation of errors by Rust's \<^verbatim>\<open>?\<close> operator, big-endian integer codecs
  (\<^verbatim>\<open>to_be_bytes\<close>/\<^verbatim>\<open>from_be_bytes\<close>), \<^verbatim>\<open>Iterator::position\<close> and
  \<^verbatim>\<open>VecDeque::remove\<close>, and Rust strings as their UTF-8 bytes.
\<close>

section \<open>Machine integers\<close>

type_synonym u8 = "8 word"
type_synonym u16 = "16 word"
type_synonym u32 = "32 word"
type_synonym u64 = "64 word"
type_synonym usize = "64 word"
type_synonym bytes = "u8 list"

text \<open>Rust's \<^verbatim>\<open>usize::saturating_sub\<close>.\<close>

definition saturating_sub :: "usize \<Rightarrow> usize \<Rightarrow> usize" where
  "saturating_sub a b = (if b \<le> a then a - b else 0)"

lemma unat_saturating_sub [simp]: "unat (saturating_sub a b) = unat a - unat b"
  by (auto simp: saturating_sub_def unat_sub word_le_nat_alt)

section \<open>Errors as values\<close>

text \<open>The \<^verbatim>\<open>?\<close> operator: stop at the first error, else go on with the value.\<close>

definition and_then :: "'e + 'a \<Rightarrow> ('a \<Rightarrow> 'e + 'b) \<Rightarrow> 'e + 'b" where
  "and_then r f = (case r of Inl e \<Rightarrow> Inl e | Inr a \<Rightarrow> f a)"

lemma and_then_simps [simp]:
  "and_then (Inl e) f = Inl e"
  "and_then (Inr a) f = f a"
  by (simp_all add: and_then_def)

lemma and_then_eq_Inr: "and_then r f = Inr b \<longleftrightarrow> (\<exists>a. r = Inr a \<and> f a = Inr b)"
  by (cases r) auto

section \<open>Big-endian integers\<close>

fun be_encode :: "nat \<Rightarrow> nat \<Rightarrow> bytes" where
  "be_encode 0 x = []"
| "be_encode (Suc n) x = be_encode n (x div 256) @ [of_nat (x mod 256)]"

definition be_decode :: "bytes \<Rightarrow> nat" where
  "be_decode bs = foldl (\<lambda>acc b. acc * 256 + unat b) 0 bs"

lemma length_be_encode [simp]: "length (be_encode n x) = n"
  by (induction n arbitrary: x) auto

text \<open>Evaluation at a width given as a numeral.\<close>

lemma be_encode_numeral [simp]:
  "be_encode (numeral k) x = be_encode (pred_numeral k) (x div 256) @ [of_nat (x mod 256)]"
  by (simp only: numeral_eq_Suc [of k] be_encode.simps(2))

lemma be_decode_Nil [simp]: "be_decode [] = 0"
  by (simp add: be_decode_def)

lemma be_decode_snoc [simp]: "be_decode (bs @ [b]) = be_decode bs * 256 + unat b"
  by (simp add: be_decode_def)

lemma unat_byte_mod [simp]: "unat (of_nat (x mod 256) :: u8) = x mod 256"
  by (simp add: unat_of_nat)

lemma be_decode_encode: "be_decode (be_encode n x) = x mod 256 ^ n"
proof (induction n arbitrary: x)
  case 0
  then show ?case by simp
next
  case (Suc n)
  have "x mod 256 ^ Suc n = x mod (256 * 256 ^ n)" by simp
  also have "\<dots> = 256 * (x div 256 mod 256 ^ n) + x mod 256"
    by (rule mod_mult2_eq)
  finally show ?case using Suc.IH [of "x div 256"] by (simp add: mult.commute)
qed

lemma be_decode_bound: "be_decode bs < 256 ^ length bs"
proof (induction bs rule: rev_induct)
  case Nil
  then show ?case by simp
next
  case (snoc b bs)
  have "unat b < 256" using unsigned_less [of b] by simp
  moreover have "be_decode bs + 1 \<le> 256 ^ length bs" using snoc.IH by simp
  then have "be_decode bs * 256 + 256 \<le> 256 ^ length bs * 256"
    by (metis add_mult_distrib mult_1 mult_le_mono1)
  ultimately show ?case by simp
qed

lemma be_encode_decode: "be_encode (length bs) (be_decode bs) = bs"
proof (induction bs rule: rev_induct)
  case Nil
  then show ?case by simp
next
  case (snoc b bs)
  have "unat b < 256" using unsigned_less [of b] by simp
  then have "(be_decode bs * 256 + unat b) div 256 = be_decode bs"
    and "(be_decode bs * 256 + unat b) mod 256 = unat b" by simp_all
  with snoc.IH show ?case by simp
qed

text \<open>
  \<^verbatim>\<open>to_be_bytes\<close> and \<^verbatim>\<open>from_be_bytes\<close> at any width that is a number of bytes.
\<close>

definition to_be_bytes :: "'a::len word \<Rightarrow> bytes" where
  "to_be_bytes w = be_encode (LENGTH('a) div 8) (unat w)"

definition from_be_bytes :: "bytes \<Rightarrow> 'a::len word" where
  "from_be_bytes bs = of_nat (be_decode bs)"

lemma length_to_be_bytes [simp]:
  "length (to_be_bytes (a :: u16)) = 2"
  "length (to_be_bytes (b :: u32)) = 4"
  "length (to_be_bytes (c :: u64)) = 8"
  by (simp_all add: to_be_bytes_def)

lemma from_to_be_bytes_word:
  fixes w :: "'a::len word"
  assumes "8 dvd LENGTH('a)"
  shows "from_be_bytes (to_be_bytes w) = w"
proof -
  have "(256::nat) ^ (LENGTH('a) div 8) = 2 ^ (8 * (LENGTH('a) div 8))"
    by (simp add: power_mult)
  also have "\<dots> = 2 ^ LENGTH('a)" using assms by simp
  finally have pow: "(256::nat) ^ (LENGTH('a) div 8) = 2 ^ LENGTH('a)" .
  have "unat w mod 256 ^ (LENGTH('a) div 8) = unat w"
    unfolding pow using unsigned_less [of w] by simp
  then show ?thesis
    by (simp add: from_be_bytes_def to_be_bytes_def be_decode_encode)
qed

lemma from_to_be_bytes [simp]:
  "from_be_bytes (to_be_bytes (a :: u16)) = a"
  "from_be_bytes (to_be_bytes (b :: u32)) = b"
  "from_be_bytes (to_be_bytes (c :: u64)) = c"
  by (rule from_to_be_bytes_word, simp)+

lemma to_from_be_bytes_word:
  assumes "8 * length bs = LENGTH('a)"
  shows "to_be_bytes (from_be_bytes bs :: 'a::len word) = bs"
proof -
  have "be_decode bs < 256 ^ length bs" by (rule be_decode_bound)
  also have "(256::nat) ^ length bs = 2 ^ LENGTH('a)"
    using assms [symmetric] by (simp add: power_mult)
  finally have lt: "be_decode bs < 2 ^ LENGTH('a)" .
  have "LENGTH('a) div 8 = length bs" using assms by simp
  with lt show ?thesis
    by (simp add: to_be_bytes_def from_be_bytes_def unat_of_nat be_encode_decode)
qed

lemma to_from_be_bytes:
  "length bs = 2 \<Longrightarrow> to_be_bytes (from_be_bytes bs :: u16) = bs"
  "length bs = 4 \<Longrightarrow> to_be_bytes (from_be_bytes bs :: u32) = bs"
  "length bs = 8 \<Longrightarrow> to_be_bytes (from_be_bytes bs :: u64) = bs"
  by (rule to_from_be_bytes_word, simp)+

section \<open>Searching and removing in a deque\<close>

text \<open>\<^verbatim>\<open>Iterator::position\<close>: the index of the first element that satisfies a predicate.\<close>

fun position :: "('a \<Rightarrow> bool) \<Rightarrow> 'a list \<Rightarrow> nat option" where
  "position P [] = None"
| "position P (x # xs) = (if P x then Some 0 else map_option Suc (position P xs))"

text \<open>
  The same with a predicate that may fault (\<^const>\<open>None\<close>): elements after the first match
  are not looked at.
\<close>

fun position_m :: "('a \<Rightarrow> bool option) \<Rightarrow> 'a list \<Rightarrow> nat option option" where
  "position_m P [] = Some None"
| "position_m P (x # xs) =
     (case P x of
        None \<Rightarrow> None
      | Some True \<Rightarrow> Some (Some 0)
      | Some False \<Rightarrow> map_option (map_option Suc) (position_m P xs))"

text \<open>\<^verbatim>\<open>VecDeque::remove\<close> at an index that is in range.\<close>

definition remove_at :: "nat \<Rightarrow> 'a list \<Rightarrow> 'a list" where
  "remove_at i xs = take i xs @ drop (Suc i) xs"

lemma remove_at_0_Cons [simp]: "remove_at 0 (x # xs) = xs"
  by (simp add: remove_at_def)

lemma remove_at_Suc_Cons [simp]: "remove_at (Suc i) (x # xs) = x # remove_at i xs"
  by (simp add: remove_at_def)

lemma position_None_iff: "position P xs = None \<longleftrightarrow> (\<forall>x\<in>set xs. \<not> P x)"
  by (induction xs) auto

lemma position_SomeD:
  "position P xs = Some i \<Longrightarrow>
   i < length xs \<and> P (xs ! i) \<and> (\<forall>j<i. \<not> P (xs ! j))"
proof (induction xs arbitrary: i)
  case Nil
  then show ?case by simp
next
  case (Cons x xs)
  show ?case
  proof (cases "P x")
    case True
    with Cons.prems show ?thesis by simp
  next
    case False
    with Cons.prems obtain k where k: "position P xs = Some k" "i = Suc k" by auto
    from Cons.IH [OF k(1)] False k(2) show ?thesis
      by (auto simp: less_Suc_eq_0_disj)
  qed
qed

text \<open>The shape of a search: everything before the match fails the predicate.\<close>

lemma position_split:
  assumes "position P xs = Some i"
  obtains ys y zs where "xs = ys @ y # zs" "length ys = i" "P y" "\<forall>x\<in>set ys. \<not> P x"
proof -
  from position_SomeD [OF assms]
  have i: "i < length xs" "P (xs ! i)" "\<forall>j<i. \<not> P (xs ! j)" by auto
  show ?thesis
  proof (rule that)
    show "xs = take i xs @ xs ! i # drop (Suc i) xs" using i(1) by (rule id_take_nth_drop)
    show "length (take i xs) = i" using i(1) by simp
    show "P (xs ! i)" by (rule i(2))
    show "\<forall>x\<in>set (take i xs). \<not> P x"
      using i by (auto simp: in_set_conv_nth)
  qed
qed

lemma position_append_match:
  "\<forall>x\<in>set ys. \<not> P x \<Longrightarrow> P y \<Longrightarrow> position P (ys @ y # zs) = Some (length ys)"
  by (induction ys) auto

lemma remove_at_append [simp]: "remove_at (length ys) (ys @ y # zs) = ys @ zs"
  by (simp add: remove_at_def)

lemma nth_length_append [simp]: "(ys @ y # zs) ! length ys = y"
  by simp

lemma position_m_total:
  "(\<And>x. x \<in> set xs \<Longrightarrow> P x = Some (Q x)) \<Longrightarrow> position_m P xs = Some (position Q xs)"
  by (induction xs) auto

lemma position_map: "position P (map f xs) = position (\<lambda>x. P (f x)) xs"
  by (induction xs) auto

lemma remove_at_map: "remove_at i (map f xs) = map f (remove_at i xs)"
  by (simp add: remove_at_def take_map drop_map)

lemma position_eq_remove1:
  "(case position (\<lambda>y. y = x) xs of None \<Rightarrow> xs | Some i \<Rightarrow> remove_at i xs) = remove1 x xs"
  by (induction xs) (auto split: option.splits)

lemma length_remove_at: "i < length xs \<Longrightarrow> length (remove_at i xs) = length xs - 1"
  by (simp add: remove_at_def)

lemma set_remove_at_subset: "set (remove_at i xs) \<subseteq> set xs"
  using set_take_subset [of i xs] set_drop_subset [of "Suc i" xs]
  by (auto simp: remove_at_def)

lemma distinct_remove_at:
  assumes "distinct xs" "i < length xs"
  shows "distinct (remove_at i xs)" "xs ! i \<notin> set (remove_at i xs)"
proof -
  have xs: "xs = take i xs @ xs ! i # drop (Suc i) xs"
    using assms(2) by (rule id_take_nth_drop)
  then have "distinct (take i xs @ xs ! i # drop (Suc i) xs)" using assms(1) by simp
  then show "distinct (remove_at i xs)" "xs ! i \<notin> set (remove_at i xs)"
    by (auto simp: remove_at_def)
qed

lemma distinct_map_remove_at:
  assumes "distinct (map f xs)" "i < length xs" "y \<in> set (remove_at i xs)"
  shows "f y \<noteq> f (xs ! i)"
proof
  assume "f y = f (xs ! i)"
  then have "f (xs ! i) \<in> set (remove_at i (map f xs))"
    using assms(3) by (metis image_eqI list.set_map remove_at_map)
  with distinct_remove_at(2) [of "map f xs" i] assms(1,2) show False by simp
qed

section \<open>Strings\<close>

text \<open>
  A Rust \<^verbatim>\<open>str\<close> is the sequence of its UTF-8 bytes, and a \<^typ>\<open>char\<close> of HOL is a byte, so
  \<^typ>\<open>string\<close> models \<^verbatim>\<open>str\<close>: \<^verbatim>\<open>len\<close> and slicing count bytes, as in Rust.
\<close>

definition as_bytes :: "string \<Rightarrow> bytes" where
  "as_bytes s = map (\<lambda>c. of_nat (of_char c)) s"

definition bytes_string :: "bytes \<Rightarrow> string" where
  "bytes_string bs = map (\<lambda>b. char_of (unat b)) bs"

lemma length_as_bytes [simp]: "length (as_bytes s) = length s"
  by (simp add: as_bytes_def)

lemma of_char_lt_256: "(of_char c :: nat) < 256"
  by (simp add: of_char_def)

lemma bytes_string_as_bytes [simp]: "bytes_string (as_bytes s) = s"
proof -
  have "char_of (unat (of_nat (of_char c) :: u8)) = c" for c :: char
    using of_char_lt_256 [of c] by (simp add: unat_of_nat)
  then show ?thesis by (simp add: bytes_string_def as_bytes_def comp_def)
qed

lemma as_bytes_bytes_string [simp]: "as_bytes (bytes_string bs) = bs"
proof -
  have "(of_nat (of_char (char_of (unat b) :: char)) :: u8) = b" for b :: u8
  proof -
    have "unat b < 256" using unsigned_less [of b] by simp
    then show ?thesis by simp
  qed
  then show ?thesis by (simp add: bytes_string_def as_bytes_def comp_def)
qed

text \<open>\<^verbatim>\<open>str::from_utf8\<close>: the well-formed byte sequences of the UTF-8 table.\<close>

definition in_range :: "nat \<Rightarrow> nat \<Rightarrow> u8 \<Rightarrow> bool" where
  "in_range lo hi b \<longleftrightarrow> lo \<le> unat b \<and> unat b \<le> hi"

fun utf8_valid :: "bytes \<Rightarrow> bool" where
  "utf8_valid [] = True"
| "utf8_valid (b # bs) =
     (if unat b < 128 then utf8_valid bs
      else if in_range 194 223 b then
        (case bs of c1 # r \<Rightarrow> in_range 128 191 c1 \<and> utf8_valid r | _ \<Rightarrow> False)
      else if in_range 224 239 b then
        (case bs of c1 # c2 # r \<Rightarrow>
           in_range (if unat b = 224 then 160 else 128) (if unat b = 237 then 159 else 191) c1 \<and>
           in_range 128 191 c2 \<and> utf8_valid r
         | _ \<Rightarrow> False)
      else if in_range 240 244 b then
        (case bs of c1 # c2 # c3 # r \<Rightarrow>
           in_range (if unat b = 240 then 144 else 128) (if unat b = 244 then 143 else 191) c1 \<and>
           in_range 128 191 c2 \<and> in_range 128 191 c3 \<and> utf8_valid r
         | _ \<Rightarrow> False)
      else False)"

definition from_utf8 :: "bytes \<Rightarrow> string option" where
  "from_utf8 bs = (if utf8_valid bs then Some (bytes_string bs) else None)"

lemma utf8_valid_ascii: "(\<And>b. b \<in> set bs \<Longrightarrow> unat b < 128) \<Longrightarrow> utf8_valid bs"
  by (induction bs) auto

text \<open>\<^verbatim>\<open>starts_with\<close>, \<^verbatim>\<open>strip_prefix\<close>, \<^verbatim>\<open>split\<close> at a character and \<^verbatim>\<open>rfind\<close> of a pattern.\<close>

definition starts_with :: "'a list \<Rightarrow> 'a list \<Rightarrow> bool" where
  "starts_with pre s \<longleftrightarrow> take (length pre) s = pre"

definition strip_prefix :: "'a list \<Rightarrow> 'a list \<Rightarrow> 'a list option" where
  "strip_prefix pre s = (if starts_with pre s then Some (drop (length pre) s) else None)"

fun split_on :: "'a \<Rightarrow> 'a list \<Rightarrow> 'a list list" where
  "split_on c [] = [[]]"
| "split_on c (x # xs) =
     (if x = c then [] # split_on c xs
      else (x # hd (split_on c xs)) # tl (split_on c xs))"

fun rfind :: "'a list \<Rightarrow> 'a list \<Rightarrow> nat option" where
  "rfind pat [] = (if pat = [] then Some 0 else None)"
| "rfind pat (x # xs) =
     (case rfind pat xs of
        Some i \<Rightarrow> Some (Suc i)
      | None \<Rightarrow> if starts_with pat (x # xs) then Some 0 else None)"

lemma starts_with_append [simp]: "starts_with pre (pre @ s)"
  by (simp add: starts_with_def)

lemma starts_with_iff: "starts_with pre s \<longleftrightarrow> (\<exists>r. s = pre @ r)"
  by (auto simp: starts_with_def) (metis append_take_drop_id)

lemma strip_prefix_append [simp]: "strip_prefix pre (pre @ s) = Some s"
  by (simp add: strip_prefix_def)

lemma split_on_not_Nil [simp]: "split_on c xs \<noteq> []"
  by (cases xs) auto

text \<open>
  The last occurrence of a pattern: \<open>rfind\<close> returns a position where the pattern stands
  and none stands later.
\<close>

lemma rfind_Some:
  "rfind pat s = Some i \<Longrightarrow>
   i \<le> length s \<and> starts_with pat (drop i s) \<and>
   (\<forall>j. i < j \<and> j \<le> length s \<longrightarrow> \<not> starts_with pat (drop j s))"
proof (induction s arbitrary: i)
  case Nil
  then show ?case by (auto simp: starts_with_def split: if_splits)
next
  case (Cons x xs)
  show ?case
  proof (cases "rfind pat xs")
    case (Some k)
    with Cons.prems have "i = Suc k" by simp
    with Cons.IH [OF Some] show ?thesis
      by (auto simp: Suc_less_eq2)
  next
    case None
    with Cons.prems have i: "i = 0" "starts_with pat (x # xs)" by (auto split: if_splits)
    have none: "rfind pat ys = None \<Longrightarrow> j \<le> length ys \<Longrightarrow> \<not> starts_with pat (drop j ys)" for j ys
    proof (induction ys arbitrary: j)
      case Nil
      then show ?case by (auto simp: starts_with_def split: if_splits)
    next
      case (Cons y ys)
      then show ?case by (cases j) (auto split: option.splits if_splits)
    qed
    from i none [OF None] show ?thesis
      by (auto simp: gr0_conv_Suc)
  qed
qed

lemma rfind_None:
  "rfind pat s = None \<longleftrightarrow> (\<forall>j\<le>length s. \<not> starts_with pat (drop j s))"
proof (induction s)
  case Nil
  then show ?case by (auto simp: starts_with_def)
next
  case (Cons x xs)
  show ?case
  proof
    assume none: "rfind pat (x # xs) = None"
    then have "rfind pat xs = None" "\<not> starts_with pat (x # xs)"
      by (auto split: option.splits if_splits)
    with Cons.IH show "\<forall>j\<le>length (x # xs). \<not> starts_with pat (drop j (x # xs))"
      by (auto simp: drop_Cons split: nat.splits)
  next
    assume all: "\<forall>j\<le>length (x # xs). \<not> starts_with pat (drop j (x # xs))"
    then have "\<not> starts_with pat (x # xs)" by fastforce
    moreover have "\<forall>j\<le>length xs. \<not> starts_with pat (drop j xs)" using all by fastforce
    ultimately show "rfind pat (x # xs) = None" using Cons.IH by simp
  qed
qed

lemma rfind_eqI:
  assumes "i \<le> length s" "starts_with pat (drop i s)"
    and "\<And>j. i < j \<Longrightarrow> j \<le> length s \<Longrightarrow> \<not> starts_with pat (drop j s)"
  shows "rfind pat s = Some i"
proof (cases "rfind pat s")
  case None
  with assms(1,2) show ?thesis by (simp add: rfind_None)
next
  case (Some k)
  from rfind_Some [OF Some] assms have "k = i"
    by (metis linorder_neqE_nat)
  with Some show ?thesis by simp
qed

text \<open>
  \<^verbatim>\<open>str::trim\<close>: strip the UTF-8 encodings of the characters with the Unicode property
  White_Space from both ends.
\<close>

definition whitespace :: "string list" where
  "whitespace = map (map char_of)
     [[9 :: nat], [10], [11], [12], [13], [32], [194, 133], [194, 160], [225, 154, 128],
      [226, 128, 128], [226, 128, 129], [226, 128, 130], [226, 128, 131], [226, 128, 132],
      [226, 128, 133], [226, 128, 134], [226, 128, 135], [226, 128, 136], [226, 128, 137],
      [226, 128, 138], [226, 128, 168], [226, 128, 169], [226, 128, 175], [226, 129, 159],
      [227, 128, 128]]"

function strip_seqs :: "'a list list \<Rightarrow> 'a list \<Rightarrow> 'a list" where
  "strip_seqs ws s =
     (case find (\<lambda>w. w \<noteq> [] \<and> starts_with w s) ws of
        None \<Rightarrow> s
      | Some w \<Rightarrow> strip_seqs ws (drop (length w) s))"
  by pat_completeness auto
termination
proof (relation "measure (length \<circ> snd)")
  fix ws :: "'a list list" and s w
  assume "find (\<lambda>w. w \<noteq> [] \<and> starts_with w s) ws = Some w"
  then have "w \<noteq> []" "starts_with w s" by (auto simp: find_Some_iff)
  then show "((ws, drop (length w) s), (ws, s)) \<in> measure (length \<circ> snd)"
    by (auto simp: starts_with_iff)
qed simp

declare strip_seqs.simps [simp del]

definition trim :: "string \<Rightarrow> string" where
  "trim s = rev (strip_seqs (map rev whitespace) (rev (strip_seqs whitespace s)))"

text \<open>Text that begins and ends with a visible ASCII character has nothing to trim.\<close>

definition visible :: "char \<Rightarrow> bool" where
  "visible c \<longleftrightarrow> 32 < (of_char c :: nat) \<and> (of_char c :: nat) < 128"

lemma whitespace_invisible: "w \<in> set whitespace \<Longrightarrow> w \<noteq> [] \<and> \<not> visible (hd w) \<and> \<not> visible (last w)"
  by (auto simp: whitespace_def visible_def)

lemma strip_seqs_plain:
  assumes "\<forall>w\<in>set ws. w \<noteq> [] \<and> hd w \<noteq> hd s"
  shows "strip_seqs ws s = s"
proof -
  have "find (\<lambda>w. w \<noteq> [] \<and> starts_with w s) ws = None"
    using assms by (auto simp: find_None_iff starts_with_iff)
  then show ?thesis by (subst strip_seqs.simps) simp
qed

lemma trim_visible:
  assumes "s \<noteq> []" and "visible (hd s)" and "visible (last s)"
  shows "trim s = s"
proof -
  have "strip_seqs whitespace s = s"
    using assms whitespace_invisible by (intro strip_seqs_plain) metis
  moreover have "strip_seqs (map rev whitespace) (rev s) = rev s"
  proof (rule strip_seqs_plain)
    show "\<forall>w\<in>set (map rev whitespace). w \<noteq> [] \<and> hd w \<noteq> hd (rev s)"
      using assms whitespace_invisible by (simp add: hd_rev) metis
  qed
  ultimately show ?thesis by (simp add: trim_def)
qed

end
