(* ===== verification/Wire_Protocol.thy ===== *)
theory Wire_Protocol
  imports Prelude
begin

text \<open>
  The wire format of \<^verbatim>\<open>src/src/protocol.rs\<close>: message types, the header,
  \<^verbatim>\<open>write_message\<close> and \<^verbatim>\<open>read_message\<close>.

  The byte codec of a peer id (\<^verbatim>\<open>PeerId::to_bytes\<close>, \<^verbatim>\<open>PeerId::from_bytes\<close>) belongs to
  libp2p: the definitions take it as the arguments \<open>to_bytes\<close> and \<open>from_bytes\<close>, and what
  the code relies on is the hypothesis \<open>peer_codec\<close>.
\<close>

section \<open>Data\<close>

datatype message_type = Unexpected | Expected | RmaPut | RmaGetReq | RmaGetResp

definition message_type_to_u8 :: "message_type \<Rightarrow> u8" where
  "message_type_to_u8 t =
     (case t of Unexpected \<Rightarrow> 1 | Expected \<Rightarrow> 2 | RmaPut \<Rightarrow> 3 | RmaGetReq \<Rightarrow> 4 | RmaGetResp \<Rightarrow> 5)"

definition message_type_from_u8 :: "u8 \<Rightarrow> message_type option" where
  "message_type_from_u8 v =
     (if v = 1 then Some Unexpected
      else if v = 2 then Some Expected
      else if v = 3 then Some RmaPut
      else if v = 4 then Some RmaGetReq
      else if v = 5 then Some RmaGetResp
      else None)"

record 'pid wire_header =
  msg_type :: message_type
  tag :: u32
  payload_size :: u32
  source_peer_id :: 'pid
  handle_id :: u64
  offset :: u64
  rma_length :: u64
  local_handle_id :: u64
  local_offset :: u64

section \<open>Writing\<close>

text \<open>The buffer that \<^verbatim>\<open>write_message\<close> builds and hands to \<^verbatim>\<open>write_all\<close> in one piece.\<close>

definition write_message :: "('pid \<Rightarrow> bytes) \<Rightarrow> 'pid wire_header \<Rightarrow> bytes \<Rightarrow> bytes" where
  "write_message to_bytes h payload =
     (let peer_bytes = to_bytes (source_peer_id h) in
      [message_type_to_u8 (msg_type h)]
      @ to_be_bytes (tag h)
      @ to_be_bytes (payload_size h)
      @ to_be_bytes (of_nat (length peer_bytes) :: u16)
      @ peer_bytes
      @ to_be_bytes (handle_id h)
      @ to_be_bytes (offset h)
      @ to_be_bytes (rma_length h)
      @ to_be_bytes (local_handle_id h)
      @ to_be_bytes (local_offset h)
      @ payload)"

section \<open>Reading\<close>

text \<open>
  The receiving end of a stream: the bytes that will arrive, and how the stream ends
  after them (\<open>rs_end\<close>: a clean close surfaces as \<open>UnexpectedEof\<close> from
  \<^verbatim>\<open>read_exact\<close>, a reset as another error kind).
\<close>

datatype io_error = UnexpectedEof | InvalidData | OtherIo string

record rstream =
  rs_data :: bytes
  rs_end :: io_error

definition read_exact :: "nat \<Rightarrow> rstream \<Rightarrow> io_error + (bytes \<times> rstream)" where
  "read_exact n s =
     (if n \<le> length (rs_data s)
      then Inr (take n (rs_data s), s\<lparr>rs_data := drop n (rs_data s)\<rparr>)
      else Inl (rs_end s))"

definition read_message ::
  "(bytes \<Rightarrow> 'pid option) \<Rightarrow> rstream \<Rightarrow> io_error + ('pid wire_header \<times> bytes) \<times> rstream" where
  "read_message from_bytes s0 =
     and_then (read_exact 1 s0) (\<lambda>(b1, s1).
     case message_type_from_u8 (hd b1) of
       None \<Rightarrow> Inl InvalidData
     | Some ty \<Rightarrow>
     and_then (read_exact 4 s1) (\<lambda>(btag, s2).
     and_then (read_exact 4 s2) (\<lambda>(bsize, s3).
     and_then (read_exact 2 s3) (\<lambda>(blen, s4).
     and_then (read_exact (unat (from_be_bytes blen :: u16)) s4) (\<lambda>(peer_id_buf, s5).
     case from_bytes peer_id_buf of
       None \<Rightarrow> Inl InvalidData
     | Some pid \<Rightarrow>
     and_then (read_exact 8 s5) (\<lambda>(bh, s6).
     and_then (read_exact 8 s6) (\<lambda>(bo, s7).
     and_then (read_exact 8 s7) (\<lambda>(br, s8).
     and_then (read_exact 8 s8) (\<lambda>(blh, s9).
     and_then (read_exact 8 s9) (\<lambda>(blo, s10).
     let psize = (from_be_bytes bsize :: u32) in
     and_then (if psize > 0 then read_exact (unat psize) s10 else Inr ([], s10)) (\<lambda>(payload, s11).
     Inr (
       (\<lparr>msg_type = ty,
         tag = from_be_bytes btag,
         payload_size = psize,
         source_peer_id = pid,
         handle_id = from_be_bytes bh,
         offset = from_be_bytes bo,
         rma_length = from_be_bytes br,
         local_handle_id = from_be_bytes blh,
         local_offset = from_be_bytes blo\<rparr>, payload), s11))))))))))))"

section \<open>Lemmas on the pieces\<close>

lemma message_type_roundtrip [simp]:
  "message_type_from_u8 (message_type_to_u8 t) = Some t"
  by (cases t) (simp_all add: message_type_from_u8_def message_type_to_u8_def)

lemma message_type_from_u8_eq_Some:
  "message_type_from_u8 v = Some t \<longleftrightarrow> v = message_type_to_u8 t"
  by (cases t) (auto simp: message_type_from_u8_def message_type_to_u8_def)

text \<open>Reading exactly the bytes at the front of a stream leaves the rest.\<close>

lemma read_exact_append [simp]:
  "length bs = n \<Longrightarrow>
   read_exact n \<lparr>rs_data = bs @ rest, rs_end = e\<rparr> = Inr (bs, \<lparr>rs_data = rest, rs_end = e\<rparr>)"
  by (simp add: read_exact_def)

lemma read_exact_Cons [simp]:
  "read_exact (Suc 0) \<lparr>rs_data = b # rest, rs_end = e\<rparr> = Inr ([b], \<lparr>rs_data = rest, rs_end = e\<rparr>)"
  by (simp add: read_exact_def)

lemma read_exact_eq_Inr:
  "read_exact n s = Inr (bs, s') \<longleftrightarrow>
   rs_data s = bs @ rs_data s' \<and> length bs = n \<and> rs_end s' = rs_end s"
  by (auto simp: read_exact_def)

section \<open>Framed readers\<close>

text \<open>
  What makes a reader fit for a stream of back-to-back messages: a success consumes a
  prefix that determines the result, leaves everything behind it untouched, and no strict
  prefix of it is enough (the reader then reports how the stream ended).
\<close>

definition framed :: "(rstream \<Rightarrow> io_error + 'a \<times> rstream) \<Rightarrow> bool" where
  "framed p \<longleftrightarrow>
     (\<forall>d e a s'. p \<lparr>rs_data = d, rs_end = e\<rparr> = Inr (a, s') \<longrightarrow>
       (\<exists>c r. d = c @ r \<and> s' = \<lparr>rs_data = r, rs_end = e\<rparr> \<and>
          (\<forall>r2 e2. p \<lparr>rs_data = c @ r2, rs_end = e2\<rparr> = Inr (a, \<lparr>rs_data = r2, rs_end = e2\<rparr>)) \<and>
          (\<forall>c1 b c2 e2. c = c1 @ b # c2 \<longrightarrow> p \<lparr>rs_data = c1, rs_end = e2\<rparr> = Inl e2)))"

named_theorems framed_intros \<open>building framed readers from framed readers\<close>

lemma framedD:
  assumes "framed p" "p \<lparr>rs_data = d, rs_end = e\<rparr> = Inr (a, s')"
  obtains c r where "d = c @ r" "s' = \<lparr>rs_data = r, rs_end = e\<rparr>"
    "\<And>r2 e2. p \<lparr>rs_data = c @ r2, rs_end = e2\<rparr> = Inr (a, \<lparr>rs_data = r2, rs_end = e2\<rparr>)"
    "\<And>c1 b c2 e2. c = c1 @ b # c2 \<Longrightarrow> p \<lparr>rs_data = c1, rs_end = e2\<rparr> = Inl e2"
  using assms(1) [unfolded framed_def, rule_format, OF assms(2)] that by metis

lemma framed_return [framed_intros]: "framed (\<lambda>s. Inr (a, s))"
  unfolding framed_def by (intro allI impI, rule exI [of _ "[]"]) simp

lemma framed_fail [framed_intros]: "framed (\<lambda>s. Inl e)"
  by (simp add: framed_def)

lemma framed_read_exact [framed_intros]: "framed (read_exact n)"
  unfolding framed_def
proof (intro allI impI)
  fix d e a s'
  assume "read_exact n \<lparr>rs_data = d, rs_end = e\<rparr> = Inr (a, s')"
  then have d: "d = a @ rs_data s'" and n: "length a = n" and s': "rs_end s' = e"
    by (auto simp: read_exact_eq_Inr)
  show "\<exists>c r. d = c @ r \<and> s' = \<lparr>rs_data = r, rs_end = e\<rparr> \<and>
      (\<forall>r2 e2. read_exact n \<lparr>rs_data = c @ r2, rs_end = e2\<rparr> = Inr (a, \<lparr>rs_data = r2, rs_end = e2\<rparr>)) \<and>
      (\<forall>c1 b c2 e2. c = c1 @ b # c2 \<longrightarrow> read_exact n \<lparr>rs_data = c1, rs_end = e2\<rparr> = Inl e2)"
    using d n s'
    by (intro exI [of _ a] exI [of _ "rs_data s'"] conjI allI impI) (simp_all add: read_exact_def)
qed

lemma framed_if [framed_intros]: "framed p \<Longrightarrow> framed q \<Longrightarrow> framed (\<lambda>s. if b then p s else q s)"
  by (cases b) simp_all

lemma framed_case_option [framed_intros]:
  "framed p \<Longrightarrow> (\<And>x. framed (q x)) \<Longrightarrow> framed (\<lambda>s. case o1 of None \<Rightarrow> p s | Some x \<Rightarrow> q x s)"
  by (cases o1) simp_all

lemma framed_and_then [framed_intros]:
  assumes p: "framed p" and f: "\<And>a. framed (f a)"
  shows "framed (\<lambda>s. and_then (p s) (\<lambda>(a, s'). f a s'))"
  unfolding framed_def
proof (intro allI impI)
  fix d e b s'
  assume "and_then (p \<lparr>rs_data = d, rs_end = e\<rparr>) (\<lambda>(a, s'). f a s') = Inr (b, s')"
  then obtain a s1 where pa: "p \<lparr>rs_data = d, rs_end = e\<rparr> = Inr (a, s1)" and fa: "f a s1 = Inr (b, s')"
    by (auto simp: and_then_eq_Inr)
  from framedD [OF p pa] obtain c1 r1 where c1: "d = c1 @ r1" "s1 = \<lparr>rs_data = r1, rs_end = e\<rparr>"
    and p1: "\<And>r2 e2. p \<lparr>rs_data = c1 @ r2, rs_end = e2\<rparr> = Inr (a, \<lparr>rs_data = r2, rs_end = e2\<rparr>)"
    and p2: "\<And>x y z e2. c1 = x @ y # z \<Longrightarrow> p \<lparr>rs_data = x, rs_end = e2\<rparr> = Inl e2" by metis
  from framedD [OF f fa [unfolded c1(2)]] obtain c2 r2 where
    c2: "r1 = c2 @ r2" "s' = \<lparr>rs_data = r2, rs_end = e\<rparr>"
    and f1: "\<And>r2 e2. f a \<lparr>rs_data = c2 @ r2, rs_end = e2\<rparr> = Inr (b, \<lparr>rs_data = r2, rs_end = e2\<rparr>)"
    and f2: "\<And>x y z e2. c2 = x @ y # z \<Longrightarrow> f a \<lparr>rs_data = x, rs_end = e2\<rparr> = Inl e2" by metis
  have short: "and_then (p \<lparr>rs_data = x, rs_end = e2\<rparr>) (\<lambda>(a, s'). f a s') = Inl e2"
    if split: "c1 @ c2 = x @ y # z" for x y z e2
  proof (cases "length x < length c1")
    case True
    with split obtain us where "c1 = x @ us" "us \<noteq> []"
      by (auto simp: append_eq_append_conv2)
    then obtain y' z' where "c1 = x @ y' # z'" by (cases us) auto
    with p2 show ?thesis by simp
  next
    case False
    with split obtain us where x: "x = c1 @ us" and "c2 = us @ y # z"
      by (auto simp: append_eq_append_conv2)
    with p1 f2 show ?thesis by simp
  qed
  show "\<exists>c r. d = c @ r \<and> s' = \<lparr>rs_data = r, rs_end = e\<rparr> \<and>
      (\<forall>r2 e2. and_then (p \<lparr>rs_data = c @ r2, rs_end = e2\<rparr>) (\<lambda>(a, s'). f a s')
         = Inr (b, \<lparr>rs_data = r2, rs_end = e2\<rparr>)) \<and>
      (\<forall>x y z e2. c = x @ y # z \<longrightarrow>
         and_then (p \<lparr>rs_data = x, rs_end = e2\<rparr>) (\<lambda>(a, s'). f a s') = Inl e2)"
    using c1(1) c2 p1 f1 short
    by (intro exI [of _ "c1 @ c2"] exI [of _ r2]) simp
qed

lemma framed_read_message: "framed (read_message from_bytes)"
  unfolding read_message_def Let_def
  by (intro framed_intros)

text \<open>A whole frame is at least 51 bytes: every successful read makes progress.\<close>

lemma read_exact_lengthD:
  "read_exact n s = Inr (bs, s') \<Longrightarrow>
   length (rs_data s) = n + length (rs_data s') \<and> rs_end s' = rs_end s"
  by (auto simp: read_exact_def split: if_splits)

lemma read_message_progress:
  "read_message from_bytes s = Inr (m, s') \<Longrightarrow>
   length (rs_data s') + 51 \<le> length (rs_data s) \<and> rs_end s' = rs_end s"
  unfolding read_message_def Let_def
  by (auto simp: and_then_eq_Inr dest!: read_exact_lengthD split: option.splits if_splits)

section \<open>A stream of messages\<close>

text \<open>
  The messages a reader yields until it fails, and the error it fails with: the reading
  side of the loop in \<^verbatim>\<open>handle_incoming_stream\<close>.
\<close>

function read_messages ::
  "(bytes \<Rightarrow> 'pid option) \<Rightarrow> rstream \<Rightarrow> ('pid wire_header \<times> bytes) list \<times> io_error" where
  "read_messages from_bytes s =
     (case read_message from_bytes s of
        Inl e \<Rightarrow> ([], e)
      | Inr (m, s') \<Rightarrow> (let (ms, e) = read_messages from_bytes s' in (m # ms, e)))"
  by pat_completeness auto
termination
  by (relation "measure (\<lambda>(f, s). length (rs_data s))")
     (auto dest!: read_message_progress)

declare read_messages.simps [simp del]

text \<open>
  The interface between a writer and a reader of frames: what was encoded is what is read,
  and reading is framed. Everything about whole streams follows from these two laws.
\<close>

locale frame_codec =
  fixes enc :: "'m \<Rightarrow> bytes"
    and dec :: "rstream \<Rightarrow> io_error + 'm \<times> rstream"
    and ok :: "'m \<Rightarrow> bool"
  assumes dec_enc: "ok m \<Longrightarrow>
      dec \<lparr>rs_data = enc m @ rest, rs_end = e\<rparr> = Inr (m, \<lparr>rs_data = rest, rs_end = e\<rparr>)"
    and dec_framed: "framed dec"
begin

lemma truncated:
  assumes "ok m" and "enc m = c @ b # cs"
  shows "dec \<lparr>rs_data = c, rs_end = e\<rparr> = Inl e"
proof -
  have "dec \<lparr>rs_data = enc m @ [], rs_end = e\<rparr> = Inr (m, \<lparr>rs_data = [], rs_end = e\<rparr>)"
    using assms(1) by (rule dec_enc)
  then show ?thesis
  proof (rule framedD [OF dec_framed])
    fix c' r
    assume "enc m @ [] = c' @ r"
      and "\<lparr>rs_data = [], rs_end = e\<rparr> = \<lparr>rs_data = r, rs_end = e\<rparr>"
      and fail: "\<And>c1 b c2 e2. c' = c1 @ b # c2 \<Longrightarrow> dec \<lparr>rs_data = c1, rs_end = e2\<rparr> = Inl e2"
    then have "c' = c @ b # cs" using assms(2) by simp
    then show ?thesis by (rule fail)
  qed
qed

lemma enc_inj_prefix:
  assumes "ok m" "ok n" "enc m @ r = enc n @ t"
  shows "m = n \<and> r = t"
proof -
  have "dec \<lparr>rs_data = enc n @ t, rs_end = UnexpectedEof\<rparr>
      = Inr (m, \<lparr>rs_data = r, rs_end = UnexpectedEof\<rparr>)"
    unfolding assms(3) [symmetric] using assms(1) by (rule dec_enc)
  then have "Inr (m, \<lparr>rs_data = r, rs_end = UnexpectedEof\<rparr>)
      = (Inr (n, \<lparr>rs_data = t, rs_end = UnexpectedEof\<rparr>) :: io_error + 'm \<times> rstream)"
    unfolding dec_enc [OF assms(2)] by (rule sym)
  then show ?thesis by simp
qed

end

section \<open>The codec of the plugin\<close>

text \<open>
  What the code relies on of libp2p's peer ids, for one peer: decoding inverts encoding,
  and the encoding fits the 16-bit length field.
\<close>

definition peer_codec :: "('pid \<Rightarrow> bytes) \<Rightarrow> (bytes \<Rightarrow> 'pid option) \<Rightarrow> 'pid \<Rightarrow> bool" where
  "peer_codec to_bytes from_bytes p \<longleftrightarrow>
     from_bytes (to_bytes p) = Some p \<and> length (to_bytes p) < 2 ^ 16"

text \<open>
  The general law: the reader takes \<^const>\<open>payload_size\<close> bytes of payload, whatever the
  length of what the writer appended.
\<close>

lemma read_write_message_general:
  assumes "peer_codec to_bytes from_bytes (source_peer_id h)"
    and "unat (payload_size h) \<le> length payload"
  shows "read_message from_bytes \<lparr>rs_data = write_message to_bytes h payload @ rest, rs_end = e\<rparr>
     = Inr ((h, take (unat (payload_size h)) payload),
            \<lparr>rs_data = drop (unat (payload_size h)) payload @ rest, rs_end = e\<rparr>)"
proof -
  define n where "n = unat (payload_size h)"
  define p1 where "p1 = take n payload"
  define p2 where "p2 = drop n payload"
  have pay: "payload = p1 @ p2" and p1: "length p1 = n"
    using assms(2) by (simp_all add: p1_def p2_def n_def)
  have len: "unat (of_nat (length (to_bytes (source_peer_id h))) :: u16)
      = length (to_bytes (source_peer_id h))"
    using assms(1) by (simp add: peer_codec_def unat_of_nat)
  have codec: "from_bytes (to_bytes (source_peer_id h)) = Some (source_peer_id h)"
    using assms(1) by (simp add: peer_codec_def)
  have empty: "p1 = []" if "\<not> payload_size h > 0"
    using that p1 by (simp add: n_def word_gt_0)
  show ?thesis
    unfolding n_def [symmetric] read_message_def write_message_def Let_def append_assoc
    using p1 by (auto simp: pay len codec empty n_def)
qed

text \<open>A message the plugin can put on the wire: the header announces the payload's length.\<close>

definition well_formed_msg ::
  "('pid \<Rightarrow> bytes) \<Rightarrow> (bytes \<Rightarrow> 'pid option) \<Rightarrow> 'pid wire_header \<times> bytes \<Rightarrow> bool" where
  "well_formed_msg to_bytes from_bytes m \<longleftrightarrow>
     peer_codec to_bytes from_bytes (source_peer_id (fst m)) \<and>
     unat (payload_size (fst m)) = length (snd m)"

definition frame :: "('pid \<Rightarrow> bytes) \<Rightarrow> 'pid wire_header \<times> bytes \<Rightarrow> bytes" where
  "frame to_bytes m = write_message to_bytes (fst m) (snd m)"

interpretation wire: frame_codec "frame to_bytes" "read_message from_bytes"
  "well_formed_msg to_bytes from_bytes"
  for to_bytes :: "'pid \<Rightarrow> bytes" and from_bytes
proof
  fix m :: "'pid wire_header \<times> bytes" and rest e
  assume ok: "well_formed_msg to_bytes from_bytes m"
  then have "unat (payload_size (fst m)) \<le> length (snd m)"
    and "peer_codec to_bytes from_bytes (source_peer_id (fst m))"
    by (simp_all add: well_formed_msg_def)
  from read_write_message_general [OF this(2,1), of rest e] ok
  show "read_message from_bytes \<lparr>rs_data = frame to_bytes m @ rest, rs_end = e\<rparr>
      = Inr (m, \<lparr>rs_data = rest, rs_end = e\<rparr>)"
    by (simp add: well_formed_msg_def frame_def)
qed (rule framed_read_message)

lemma frame_not_Nil [simp]: "frame to_bytes m \<noteq> []"
  by (simp add: frame_def write_message_def Let_def)

text \<open>A stream that carries whole frames only.\<close>

lemma read_messages_whole:
  assumes "\<And>m. m \<in> set ms \<Longrightarrow> well_formed_msg to_bytes from_bytes m"
  shows "read_messages from_bytes \<lparr>rs_data = concat (map (frame to_bytes) ms), rs_end = e\<rparr> = (ms, e)"
  using assms
proof (induction ms)
  case Nil
  show ?case by (simp add: read_messages.simps read_message_def read_exact_def Let_def)
next
  case (Cons m ms)
  have "read_message from_bytes
      \<lparr>rs_data = frame to_bytes m @ concat (map (frame to_bytes) ms), rs_end = e\<rparr>
    = Inr (m, \<lparr>rs_data = concat (map (frame to_bytes) ms), rs_end = e\<rparr>)"
    by (rule wire.dec_enc) (simp add: Cons.prems)
  with Cons show ?case by (simp add: read_messages.simps)
qed

section \<open>Properties\<close>

text \<open>C4: reading back a written message, with anything behind it in the stream, yields the
  header and payload that were written and leaves exactly what was behind it.\<close>

theorem read_write_message:
  assumes "peer_codec to_bytes from_bytes (source_peer_id h)"
    and "unat (payload_size h) = length payload"
  shows "read_message from_bytes \<lparr>rs_data = write_message to_bytes h payload @ rest, rs_end = e\<rparr>
     = Inr ((h, payload), \<lparr>rs_data = rest, rs_end = e\<rparr>)"
  using wire.dec_enc [of to_bytes from_bytes "(h, payload)"] assms
  by (simp add: well_formed_msg_def frame_def)

text \<open>C15: a stream that carries frames back to back and ends inside a further frame (or
  right before it) is read as exactly the whole frames, in order; the cut frame never
  surfaces as a message and the reader reports how the stream ended.\<close>

theorem read_messages_frames:
  assumes "\<And>m. m \<in> set ms \<Longrightarrow> well_formed_msg to_bytes from_bytes m"
    and "well_formed_msg to_bytes from_bytes m'"
    and "frame to_bytes m' = part @ b # missing"
  shows "read_messages from_bytes
       \<lparr>rs_data = concat (map (frame to_bytes) ms) @ part, rs_end = e\<rparr> = (ms, e)"
  using assms(1)
proof (induction ms)
  case Nil
  show ?case
    using wire.truncated [OF assms(2,3)] by (simp add: read_messages.simps)
next
  case (Cons m ms)
  have "read_message from_bytes
      \<lparr>rs_data = frame to_bytes m @ concat (map (frame to_bytes) ms) @ part, rs_end = e\<rparr>
    = Inr (m, \<lparr>rs_data = concat (map (frame to_bytes) ms) @ part, rs_end = e\<rparr>)"
    by (rule wire.dec_enc) (simp add: Cons.prems)
  with Cons show ?case by (simp add: read_messages.simps)
qed

text \<open>The wire format is prefix-free: whatever follows them, two different well-formed
  messages never begin a stream with the same bytes.\<close>

lemma write_message_prefix_free:
  assumes "well_formed_msg to_bytes from_bytes (h1, p1)"
    and "well_formed_msg to_bytes from_bytes (h2, p2)"
    and "(h1, p1) \<noteq> (h2, p2)"
  shows "write_message to_bytes h1 p1 @ rest1 \<noteq> write_message to_bytes h2 p2 @ rest2"
  using wire.enc_inj_prefix [OF assms(1,2), of rest1 rest2] assms(3) by (auto simp: frame_def)

text \<open>C25: when the header's \<^const>\<open>payload_size\<close> is the payload's length truncated to 32 bits
  (as the command loop computes it), a payload of \<open>2 ^ 32\<close> bytes or more is not
  delivered whole: the reader returns the first \<open>length mod 2 ^ 32\<close> bytes and the others
  stay in the stream, where the next read takes them for a header.\<close>

theorem read_write_message_oversized:
  assumes "peer_codec to_bytes from_bytes (source_peer_id h)"
    and "payload_size h = of_nat (length payload)"
    and "length payload \<ge> 2 ^ 32"
  shows "read_message from_bytes \<lparr>rs_data = write_message to_bytes h payload @ rest, rs_end = e\<rparr>
     = Inr ((h, take (length payload mod 2 ^ 32) payload),
            \<lparr>rs_data = drop (length payload mod 2 ^ 32) payload @ rest, rs_end = e\<rparr>)
     \<and> take (length payload mod 2 ^ 32) payload \<noteq> payload"
proof -
  define n where "n = length payload mod 2 ^ 32"
  have n: "unat (payload_size h) = n"
    using assms(2) by (simp add: unat_of_nat n_def)
  have "n < 2 ^ 32" by (simp add: n_def)
  with assms(3) have lt: "n < length payload" by linarith
  then have "length (take n payload) \<noteq> length payload" by simp
  then have "take n payload \<noteq> payload" by metis
  with read_write_message_general [OF assms(1), of payload rest e] n lt show ?thesis
    by (simp add: n_def)
qed

section \<open>Witnesses\<close>

text \<open>A concrete peer codec: peers are single bytes.\<close>

definition byte_peer :: "u8 \<Rightarrow> bytes" where
  "byte_peer p = [p]"

definition peer_of_bytes :: "bytes \<Rightarrow> u8 option" where
  "peer_of_bytes bs = (case bs of [b] \<Rightarrow> Some b | _ \<Rightarrow> None)"

lemma peer_codec_byte [simp]: "peer_codec byte_peer peer_of_bytes p"
  by (simp add: peer_codec_def byte_peer_def peer_of_bytes_def)

definition example_header :: "u32 \<Rightarrow> u8 wire_header" where
  "example_header n = \<lparr>msg_type = Expected, tag = 7, payload_size = n, source_peer_id = 42,
     handle_id = 0, offset = 0, rma_length = 0, local_handle_id = 0, local_offset = 0\<rparr>"

lemma example_header_simps [simp]:
  "source_peer_id (example_header n) = 42"
  "payload_size (example_header n) = n"
  by (simp_all add: example_header_def)

theorem read_write_message_witness:
  "read_message peer_of_bytes
     \<lparr>rs_data = write_message byte_peer (example_header 3) [1, 2, 3] @ [9], rs_end = UnexpectedEof\<rparr>
   = Inr ((example_header 3, [1, 2, 3]), \<lparr>rs_data = [9], rs_end = UnexpectedEof\<rparr>)"
  by (rule read_write_message) simp_all

theorem read_messages_frames_witness:
  "read_messages peer_of_bytes
     \<lparr>rs_data = concat (map (frame byte_peer) [(example_header 2, [1, 2]), (example_header 0, [])])
        @ [2, 0, 0], rs_end = UnexpectedEof\<rparr>
   = ([(example_header 2, [1, 2]), (example_header 0, [])], UnexpectedEof)"
proof (rule read_messages_frames)
  show "frame byte_peer (example_header 0, []) = [2, 0, 0] @ 0 # drop 4 (frame byte_peer (example_header 0, []))"
    by (simp add: frame_def write_message_def example_header_def message_type_to_u8_def byte_peer_def
        to_be_bytes_def)
qed (auto simp: well_formed_msg_def)

theorem read_write_message_oversized_witness:
  "read_message peer_of_bytes
     \<lparr>rs_data = write_message byte_peer (example_header 1) (replicate (2 ^ 32 + 1) 0) @ [],
      rs_end = UnexpectedEof\<rparr>
   = Inr ((example_header 1, take ((2 ^ 32 + 1) mod 2 ^ 32) (replicate (2 ^ 32 + 1) 0)),
       \<lparr>rs_data = drop ((2 ^ 32 + 1) mod 2 ^ 32) (replicate (2 ^ 32 + 1) 0) @ [],
        rs_end = UnexpectedEof\<rparr>)"
proof -
  have len: "length (replicate (2 ^ 32 + 1) (0::u8)) = 2 ^ 32 + 1"
    by (rule length_replicate)
  have size: "payload_size (example_header 1) = of_nat (length (replicate (2 ^ 32 + 1) (0::u8)))"
    unfolding len by simp
  have big: "2 ^ 32 \<le> length (replicate (2 ^ 32 + 1) (0::u8))"
    unfolding len by simp
  have codec: "peer_codec byte_peer peer_of_bytes (source_peer_id (example_header 1))"
    by simp
  from read_write_message_oversized [OF codec size big, of "[]" UnexpectedEof]
  show ?thesis unfolding len by (rule conjunct1)
qed

end
