(* ===== verification/Byte_Memory.thy ===== *)
theory Byte_Memory
  imports Prelude
begin

text \<open>
  The client's memory: bytes at addresses, some of them allocated. Copies in and out
  (\<^verbatim>\<open>ptr::copy_nonoverlapping\<close>, \<^verbatim>\<open>slice::from_raw_parts\<close>) are defined exactly on allocated
  regions; the interface \<open>byte_memory\<close> states what the other theories rely on.
\<close>

section \<open>Bytes at addresses\<close>

type_synonym ptr = nat

abbreviation (input) null_ptr :: ptr where
  "null_ptr \<equiv> 0"

text \<open>Bytes: a copy into memory and a read out of it, both within allocated bytes.\<close>

fun store_bytes :: "ptr \<Rightarrow> bytes \<Rightarrow> (ptr \<rightharpoonup> u8) \<Rightarrow> (ptr \<rightharpoonup> u8) option" where
  "store_bytes p [] m = Some m"
| "store_bytes p (b # bs) m =
     (case m p of None \<Rightarrow> None | Some _ \<Rightarrow> store_bytes (Suc p) bs (m(p \<mapsto> b)))"

fun load_bytes :: "ptr \<Rightarrow> nat \<Rightarrow> (ptr \<rightharpoonup> u8) \<Rightarrow> bytes option" where
  "load_bytes p 0 m = Some []"
| "load_bytes p (Suc n) m =
     (case m p of None \<Rightarrow> None | Some b \<Rightarrow> map_option (Cons b) (load_bytes (Suc p) n m))"

text \<open>A region of memory is allocated.\<close>

definition region :: "ptr \<Rightarrow> nat \<Rightarrow> (ptr \<rightharpoonup> u8) \<Rightarrow> bool" where
  "region p n m \<longleftrightarrow> (\<forall>q. p \<le> q \<and> q < p + n \<longrightarrow> m q \<noteq> None)"

section \<open>The memory interface\<close>

text \<open>
  What the clients of memory rely on: reads and writes succeed exactly on allocated
  regions, a write is read back, and it changes nothing else.
\<close>

locale byte_memory =
  fixes load :: "ptr \<Rightarrow> nat \<Rightarrow> 'mem \<Rightarrow> bytes option"
    and store :: "ptr \<Rightarrow> bytes \<Rightarrow> 'mem \<Rightarrow> 'mem option"
    and valid :: "ptr \<Rightarrow> nat \<Rightarrow> 'mem \<Rightarrow> bool"
  assumes store_defined: "store p bs m \<noteq> None \<longleftrightarrow> valid p (length bs) m"
    and load_defined: "load p n m \<noteq> None \<longleftrightarrow> valid p n m"
    and load_length: "load p n m = Some bs \<Longrightarrow> length bs = n"
    and valid_store: "store p bs m = Some m' \<Longrightarrow> valid q n m' = valid q n m"
    and load_store_same: "store p bs m = Some m' \<Longrightarrow> load p (length bs) m' = Some bs"
    and load_store_other: "store p bs m = Some m' \<Longrightarrow> q + n \<le> p \<or> p + length bs \<le> q \<Longrightarrow>
           load q n m' = load q n m"
    and store_append: "store p (as @ bs) m =
           Option.bind (store p as m) (store (p + length as) bs)"
    and valid_mono: "valid p n m \<Longrightarrow> p \<le> q \<Longrightarrow> q + k \<le> p + n \<Longrightarrow> valid q k m"
begin

lemma store_total:
  assumes "valid p n m" "length bs \<le> n"
  obtains m' where "store p bs m = Some m'"
proof -
  have "valid p (length bs) m" using assms by (intro valid_mono [of p n m p "length bs"]) simp_all
  then have "store p bs m \<noteq> None" by (simp only: store_defined)
  then show ?thesis using that by blast
qed

lemma load_total:
  assumes "valid p n m" "k \<le> n"
  obtains bs where "load p k m = Some bs" "length bs = k"
proof -
  have "valid p k m" using assms by (intro valid_mono [of p n m p k]) simp_all
  then have "load p k m \<noteq> None" by (simp only: load_defined)
  then show ?thesis using that load_length by blast
qed

text \<open>Copying out of one region into another delivers the bytes of the first.\<close>

lemma transfer:
  assumes "load p n m = Some bs" "store q bs m = Some m'"
  shows "load q n m' = Some bs"
  using load_store_same [OF assms(2)] load_length [OF assms(1)] by simp

end

lemma store_bytes_eq:
  "store_bytes p bs m =
     (if region p (length bs) m
      then Some (\<lambda>q. if p \<le> q \<and> q < p + length bs then Some (bs ! (q - p)) else m q)
      else None)"
proof (induction bs arbitrary: p m)
  case Nil
  have "(\<lambda>q. if p \<le> q \<and> q < p + length [] then Some ([] ! (q - p)) else m q) = m"
    by (rule ext) auto
  then show ?case by (simp add: region_def)
next
  case (Cons b bs)
  have reg: "region p (length (b # bs)) m \<longleftrightarrow> m p \<noteq> None \<and> region (Suc p) (length bs) (m(p \<mapsto> b))"
    by (auto simp: region_def) (metis Suc_leI add_Suc_right le_neq_implies_less)
  show ?case
  proof (cases "m p")
    case None
    with reg show ?thesis by simp
  next
    case (Some x)
    have eq: "(\<lambda>q. if Suc p \<le> q \<and> q < Suc p + length bs then Some (bs ! (q - Suc p)) else (m(p \<mapsto> b)) q)
       = (\<lambda>q. if p \<le> q \<and> q < p + length (b # bs) then Some ((b # bs) ! (q - p)) else m q)"
    proof (rule ext)
      fix q
      consider "q = p" | "q < p" | k where "q = Suc (p + k)" by (metis less_iff_Suc_add linorder_neqE_nat)
      then show "(if Suc p \<le> q \<and> q < Suc p + length bs then Some (bs ! (q - Suc p)) else (m(p \<mapsto> b)) q)
          = (if p \<le> q \<and> q < p + length (b # bs) then Some ((b # bs) ! (q - p)) else m q)"
        by cases (auto simp: nth_Cons split: nat.splits)
    qed
    have "store_bytes p (b # bs) m = store_bytes (Suc p) bs (m(p \<mapsto> b))" using Some by simp
    also note Cons.IH
    finally show ?thesis unfolding eq using reg Some by (simp add: fun_upd_def)
  qed
qed

lemma load_bytes_eq:
  "load_bytes p n m = (if region p n m then Some (map (\<lambda>i. the (m (p + i))) [0..<n]) else None)"
proof (induction n arbitrary: p)
  case 0
  then show ?case by (simp add: region_def)
next
  case (Suc n)
  have reg: "region p (Suc n) m \<longleftrightarrow> m p \<noteq> None \<and> region (Suc p) n m"
    by (auto simp: region_def) (metis Suc_leI add_Suc_right le_neq_implies_less)
  have "map (\<lambda>i. the (m (p + i))) [0..<Suc n]
      = the (m p) # map (\<lambda>i. the (m (Suc p + i))) [0..<n]"
    by (simp only: upt_conv_Cons map_Suc_upt [symmetric] zero_less_Suc list.map)
       (simp add: comp_def)
  with Suc reg show ?case by (cases "m p") auto
qed

text \<open>The memory after a copy, as a function.\<close>

definition overwrite :: "ptr \<Rightarrow> bytes \<Rightarrow> (ptr \<rightharpoonup> u8) \<Rightarrow> (ptr \<rightharpoonup> u8)" where
  "overwrite p bs m = (\<lambda>q. if p \<le> q \<and> q < p + length bs then Some (bs ! (q - p)) else m q)"

lemma store_bytes_overwrite:
  "region p (length bs) m \<Longrightarrow> store_bytes p bs m = Some (overwrite p bs m)"
  by (simp add: store_bytes_eq overwrite_def)

lemma overwrite_Nil [simp]: "overwrite p [] m = m"
proof (rule ext)
  show "overwrite p [] m q = m q" for q by (auto simp: overwrite_def)
qed

lemma overwrite_outside: "q < p \<or> p + length bs \<le> q \<Longrightarrow> overwrite p bs m q = m q"
  by (auto simp: overwrite_def)

lemma region_overwrite: "region q n m \<Longrightarrow> region q n (overwrite p bs m)"
  by (auto simp: region_def overwrite_def)

lemma load_overwrite: "load_bytes p (length bs) (overwrite p bs m) = Some bs"
proof -
  have "region p (length bs) (overwrite p bs m)" by (simp add: region_def overwrite_def)
  moreover have "map (\<lambda>i. the (overwrite p bs m (p + i))) [0..<length bs] = bs"
    by (rule nth_equalityI) (simp_all add: overwrite_def)
  ultimately show ?thesis by (simp add: load_bytes_eq)
qed

lemma region_store:
  "store_bytes p bs m = Some m' \<Longrightarrow> region q n m' = region q n m"
  by (auto simp: store_bytes_eq region_def split: if_splits)

lemma region_append:
  "region p (a + b) m \<longleftrightarrow> region p a m \<and> region (p + a) b m"
  by (auto simp: region_def) (metis add.assoc leI)

lemma store_bytes_append:
  "store_bytes p (as @ bs) m = Option.bind (store_bytes p as m) (store_bytes (p + length as) bs)"
  by (induction as arbitrary: p m) (auto split: option.splits)

interpretation mem: byte_memory load_bytes store_bytes region
proof
  fix p :: ptr and bs :: bytes and m m' :: "ptr \<rightharpoonup> u8" and n q k as
  show "store_bytes p bs m \<noteq> None \<longleftrightarrow> region p (length bs) m"
    by (simp add: store_bytes_eq)
  show "load_bytes p n m \<noteq> None \<longleftrightarrow> region p n m"
    by (simp add: load_bytes_eq)
  show "load_bytes p n m = Some bs \<Longrightarrow> length bs = n"
    by (auto simp: load_bytes_eq split: if_splits)
  show "store_bytes p bs m = Some m' \<Longrightarrow> region q n m' = region q n m"
    by (rule region_store)
  show "load_bytes p (length bs) m' = Some bs" if "store_bytes p bs m = Some m'"
    using that region_store [OF that, of p "length bs"]
    by (auto simp: load_bytes_eq store_bytes_eq split: if_splits intro: nth_equalityI)
  show "load_bytes q n m' = load_bytes q n m"
    if "store_bytes p bs m = Some m'" "q + n \<le> p \<or> p + length bs \<le> q"
    using that region_store [OF that(1), of q n]
    by (auto simp: load_bytes_eq store_bytes_eq split: if_splits)
  show "store_bytes p (as @ bs) m = Option.bind (store_bytes p as m) (store_bytes (p + length as) bs)"
    by (rule store_bytes_append)
  show "region p n m \<Longrightarrow> p \<le> q \<Longrightarrow> q + k \<le> p + n \<Longrightarrow> region q k m"
    by (auto simp: region_def)
qed

end
