(* ===== verification/Plugin_State.thy ===== *)
theory Plugin_State
  imports Wire_Protocol Byte_Memory
begin

text \<open>
  The data of \<^verbatim>\<open>src/src/state.rs\<close> and of the channels of \<^verbatim>\<open>src/src/runtime.rs\<close>, over an
  explicit heap.

  Raw pointers are numbers, 0 is null. A \<^verbatim>\<open>Box\<close> lives in a typed partial map from pointers
  to values: \<^verbatim>\<open>Box::into_raw(Box::new(x))\<close> allocates at a fresh pointer and dropping
  \<^verbatim>\<open>Box::from_raw(p)\<close> removes \<open>p\<close>. The client's message buffers and registered memory are
  bytes of a separate partial map. A dereference of a pointer that is not live, a second
  free and a copy that leaves the allocated bytes have no defined behaviour in Rust: the
  model returns \<^const>\<open>None\<close> there, so a theorem that an operation returns \<^const>\<open>Some\<close> is a
  memory-safety statement.
\<close>

section \<open>Return codes and callback types\<close>

datatype na_return =
  NA_SUCCESS | NA_PROTOCOL_ERROR | NA_TIMEOUT | NA_NOMEM | NA_CANCELED | NA_OVERFLOW | NA_INVALID_ARG

datatype cb_type =
  CB_SEND_UNEXPECTED | CB_RECV_UNEXPECTED | CB_SEND_EXPECTED | CB_RECV_EXPECTED | CB_PUT | CB_GET

section \<open>Addresses\<close>

text \<open>
  The components of a multiaddr that the source names; every other protocol is opaque.
  Iterating, pushing and collecting a \<^verbatim>\<open>Multiaddr\<close> are list operations; its text form and
  the codecs of peer ids are arguments, gathered in a record.
\<close>

datatype 'pid protocol =
  Ip4 u32 | Ip6 "128 word" | Tcp u16 | Udp u16 | QuicV1 | P2p 'pid | P2pCircuit | OtherProto string

type_synonym 'pid multiaddr = "'pid protocol list"

record 'pid libp2p =
  pid_to_bytes :: "'pid \<Rightarrow> bytes"
  pid_from_bytes :: "bytes \<Rightarrow> 'pid option"
  pid_to_string :: "'pid \<Rightarrow> string"
  pid_parse :: "string \<Rightarrow> 'pid option"
  ma_to_string :: "'pid multiaddr \<Rightarrow> string"
  ma_parse :: "string \<Rightarrow> 'pid multiaddr option"

fun is_tcp :: "'pid protocol \<Rightarrow> bool" where
  "is_tcp (Tcp _) = True"
| "is_tcp _ = False"

fun is_p2p :: "'pid protocol \<Rightarrow> bool" where
  "is_p2p (P2p _) = True"
| "is_p2p _ = False"

definition transport_prefix_for_multiaddr :: "'pid multiaddr \<Rightarrow> string" where
  "transport_prefix_for_multiaddr ma =
     (if \<exists>p\<in>set ma. p = P2pCircuit then ''relay''
      else if \<exists>p\<in>set ma. p = QuicV1 then ''quic''
      else ''tcp'')"

record 'pid na_addr =
  peer_id :: 'pid
  multiaddr :: "'pid multiaddr option"
  is_self :: bool

definition to_addr_string :: "'pid libp2p \<Rightarrow> 'pid na_addr \<Rightarrow> string" where
  "to_addr_string L a =
     (case multiaddr a of
        Some ma \<Rightarrow> transport_prefix_for_multiaddr ma @ '':'' @ ma_to_string L ma
                    @ ''/p2p/'' @ pid_to_string L (peer_id a)
      | None \<Rightarrow> ''tcp:/p2p/'' @ pid_to_string L (peer_id a))"

section \<open>Transport configuration\<close>

datatype transport_kind = TcpKind | QuicKind

record transport_config =
  tc_tcp :: bool
  tc_quic :: bool
  tc_relay :: bool
  tc_priority :: transport_kind

section \<open>Operations, memory handles, queues, channels\<close>

text \<open>The union \<^verbatim>\<open>callback_info.info\<close> of a completion: nothing, or what a receive reports.\<close>

datatype cb_info = NoInfo | RecvUnexpectedInfo nat ptr u32 | RecvExpectedInfo nat

text \<open>
  \<^verbatim>\<open>NaLibp2pOpId\<close> with the fields of its \<^verbatim>\<open>completion_data\<close> inlined; \<^const>\<open>None\<close> in
  \<open>op_type\<close> and \<open>op_ret\<close> is the zeroed value that no call has set yet.
\<close>

record op_id =
  op_callback :: nat
  op_arg :: ptr
  op_type :: "cb_type option"
  op_ret :: "na_return option"
  op_info :: cb_info
  op_release :: "ptr option"
  op_context :: ptr
  op_addr :: ptr
  op_tag :: u32
  op_buf :: ptr
  op_buf_size :: usize
  op_local_handle_id :: u64
  op_local_offset :: u64
  op_rma_length :: usize

record mem_handle_entry =
  me_buf :: ptr
  me_buf_size :: usize
  me_flags :: u64

record 'pid mem_handle =
  mh_buf :: ptr
  mh_buf_size :: usize
  mh_handle_id :: u64
  mh_flags :: u64
  mh_owner_peer_id :: "'pid option"

record stashed_message =
  sm_payload :: bytes
  sm_source_addr :: ptr
  sm_tag :: u32

record operation_queues =
  unexpected_recv_ops :: "ptr list"
  expected_recv_ops :: "ptr list"
  unexpected_msg_stash :: "stashed_message list"
  expected_msg_stash :: "stashed_message list"
  pending_rma_ops :: "ptr list"

definition operation_queues_new :: operation_queues where
  "operation_queues_new = \<lparr>unexpected_recv_ops = [], expected_recv_ops = [],
     unexpected_msg_stash = [], expected_msg_stash = [], pending_rma_ops = []\<rparr>"

record recv_info =
  ri_actual_size :: nat
  ri_source_addr :: ptr
  ri_tag :: u32

record completion_item =
  ci_op_ptr :: ptr
  ci_result :: na_return
  ci_recv_info :: "recv_info option"

datatype relay_connect_result = Direct | RelayOnly | Failed string

text \<open>
  The commands from the NA thread to the runtime. The reply channel of
  \<open>ConnectViaRelay\<close> is named by a number.
\<close>

datatype 'pid command =
  SendMessage (cmd_dest: 'pid) (cmd_msg_type: message_type) (cmd_tag: u32) (cmd_payload: bytes)
    (cmd_op: ptr) (cmd_source: 'pid)
| RmaPutCmd 'pid bytes u64 u64 ptr 'pid
| RmaGetRequest 'pid u64 u64 usize u64 u64 ptr 'pid
| AddKnownAddr 'pid "'pid multiaddr"
| ConnectViaRelay 'pid "'pid multiaddr" nat
| Shutdown

text \<open>
  The state of one plugin instance: the heap, the fields of \<^verbatim>\<open>NaLibp2pClass\<close> (channels as
  the list of what is in them, \<open>cmd_closed\<close> once the runtime has dropped its end,
  \<open>next_chan\<close> the next reply channel), and the
  completions handed to Mercury by \<^verbatim>\<open>na_cb_completion_add\<close> that its trigger has not taken
  yet, as pairs of a context and an operation.
\<close>

record 'pid na_state =
  op_box :: "ptr \<rightharpoonup> op_id"
  addr_box :: "ptr \<rightharpoonup> 'pid na_addr"
  mh_box :: "ptr \<rightharpoonup> 'pid mem_handle"
  memory :: "ptr \<rightharpoonup> u8"
  next_box :: ptr
  self_addr :: "'pid na_addr"
  queues :: operation_queues
  cmd_tx :: "'pid command list"
  cmd_closed :: bool
  next_chan :: nat
  completion_rx :: "completion_item list"
  event_fd :: u64
  mem_handles :: "u64 \<rightharpoonup> mem_handle_entry"
  next_mem_handle_id :: u64
  transport_cfg :: transport_config
  listen_addrs :: "'pid multiaddr list"
  relay_addr :: "'pid multiaddr option"
  na_completions :: "(ptr \<times> ptr) list"

section \<open>The heap\<close>

definition alloc_addr :: "'pid na_addr \<Rightarrow> 'pid na_state \<Rightarrow> ptr \<times> 'pid na_state" where
  "alloc_addr a w =
     (next_box w, w\<lparr>addr_box := (addr_box w)(next_box w \<mapsto> a), next_box := Suc (next_box w)\<rparr>)"

definition alloc_boxed ::
  "'pid \<Rightarrow> 'pid multiaddr option \<Rightarrow> bool \<Rightarrow> 'pid na_state \<Rightarrow> ptr \<times> 'pid na_state" where
  "alloc_boxed p ma self w = alloc_addr \<lparr>peer_id = p, multiaddr = ma, is_self = self\<rparr> w"

definition addr_dup_boxed :: "'pid na_addr \<Rightarrow> 'pid na_state \<Rightarrow> ptr \<times> 'pid na_state" where
  "addr_dup_boxed src w =
     alloc_addr \<lparr>peer_id = peer_id src, multiaddr = multiaddr src, is_self = is_self src\<rparr> w"

definition free_addr :: "ptr \<Rightarrow> 'pid na_state \<Rightarrow> 'pid na_state option" where
  "free_addr p w =
     (case addr_box w p of
        None \<Rightarrow> None
      | Some _ \<Rightarrow> Some (w\<lparr>addr_box := (addr_box w)(p := None)\<rparr>))"

definition put_op :: "ptr \<Rightarrow> op_id \<Rightarrow> 'pid na_state \<Rightarrow> 'pid na_state" where
  "put_op p op w = w\<lparr>op_box := (op_box w)(p \<mapsto> op)\<rparr>"

text \<open>Copies into and out of the memory of the state.\<close>

definition copy_to :: "ptr \<Rightarrow> bytes \<Rightarrow> 'pid na_state \<Rightarrow> 'pid na_state option" where
  "copy_to p bs w = map_option (\<lambda>m. w\<lparr>memory := m\<rparr>) (store_bytes p bs (memory w))"

definition copy_from :: "ptr \<Rightarrow> nat \<Rightarrow> 'pid na_state \<Rightarrow> bytes option" where
  "copy_from p n w = load_bytes p n (memory w)"

section \<open>Class operations\<close>

text \<open>\<^verbatim>\<open>next_handle_id\<close>: \<^verbatim>\<open>fetch_add(1)\<close> on an \<^verbatim>\<open>AtomicU64\<close>, which wraps around.\<close>

definition next_handle_id :: "'pid na_state \<Rightarrow> u64 \<times> 'pid na_state" where
  "next_handle_id w =
     (next_mem_handle_id w, w\<lparr>next_mem_handle_id := next_mem_handle_id w + 1\<rparr>)"

text \<open>\<^verbatim>\<open>cmd_tx.send\<close>, whose failure on a closed channel the code ignores.\<close>

definition send_cmd :: "'pid command \<Rightarrow> 'pid na_state \<Rightarrow> 'pid na_state" where
  "send_cmd c w = (if cmd_closed w then w else w\<lparr>cmd_tx := cmd_tx w @ [c]\<rparr>)"

definition na_cb_completion_add :: "ptr \<Rightarrow> ptr \<Rightarrow> 'pid na_state \<Rightarrow> 'pid na_state" where
  "na_cb_completion_add context op_ptr w =
     w\<lparr>na_completions := na_completions w @ [(context, op_ptr)]\<rparr>"

text \<open>
  \<^verbatim>\<open>completion_tx.send(..)\<close> followed by \<^verbatim>\<open>signal_eventfd\<close>: the eventfd counter is raised by
  one, up to the largest value \<open>2 ^ 64 - 2\<close> it can hold (a write beyond it would block and
  fails on the non-blocking descriptor).
\<close>

definition signal_eventfd :: "'pid na_state \<Rightarrow> 'pid na_state" where
  "signal_eventfd w =
     (if event_fd w < - 2 then w\<lparr>event_fd := event_fd w + 1\<rparr> else w)"

definition drain_eventfd :: "'pid na_state \<Rightarrow> 'pid na_state" where
  "drain_eventfd w = w\<lparr>event_fd := 0\<rparr>"

definition send_completion :: "completion_item \<Rightarrow> 'pid na_state \<Rightarrow> 'pid na_state" where
  "send_completion c w = signal_eventfd (w\<lparr>completion_rx := completion_rx w @ [c]\<rparr>)"

definition na_libp2p_op_create :: "'pid na_state \<Rightarrow> ptr \<times> 'pid na_state" where
  "na_libp2p_op_create w =
     (let op_ptr = next_box w in
      (op_ptr,
       w\<lparr>op_box := (op_box w)(op_ptr \<mapsto>
           \<lparr>op_callback = 0, op_arg = null_ptr, op_type = None, op_ret = None, op_info = NoInfo,
            op_release = Some op_ptr, op_context = null_ptr, op_addr = null_ptr, op_tag = 0,
            op_buf = null_ptr, op_buf_size = 0, op_local_handle_id = 0, op_local_offset = 0,
            op_rma_length = 0\<rparr>),
         next_box := Suc op_ptr\<rparr>))"

definition na_libp2p_op_destroy :: "ptr \<Rightarrow> 'pid na_state \<Rightarrow> 'pid na_state option" where
  "na_libp2p_op_destroy op w =
     (if op = null_ptr then Some w
      else case op_box w op of
             None \<Rightarrow> None
           | Some _ \<Rightarrow> Some (w\<lparr>op_box := (op_box w)(op := None)\<rparr>))"

section \<open>Concrete instances\<close>

text \<open>
  A concrete library and plugin state: peers are single bytes printed as one character, and
  two multiaddrs, a direct and a relayed one, have a text form.
\<close>

definition example_ma :: "u8 multiaddr" where
  "example_ma = [Ip4 2130706433, Tcp 4001]"

definition example_circuit :: "u8 multiaddr" where
  "example_circuit = [Ip4 2130706433, Tcp 4001, P2p 65, P2pCircuit]"

definition example_lib :: "u8 libp2p" where
  "example_lib =
     \<lparr>pid_to_bytes = byte_peer,
      pid_from_bytes = peer_of_bytes,
      pid_to_string = (\<lambda>p. [char_of (unat p)]),
      pid_parse = (\<lambda>s. case s of [c] \<Rightarrow> Some (of_nat (of_char c)) | _ \<Rightarrow> None),
      ma_to_string = (\<lambda>ma. if ma = example_ma then ''/ip4/127.0.0.1/tcp/4001''
                           else if ma = example_circuit then ''/ip4/127.0.0.1/tcp/4001/p2p/A/p2p-circuit''
                           else ''/''),
      ma_parse = (\<lambda>s. if s = ''/ip4/127.0.0.1/tcp/4001'' then Some example_ma
                       else if s = ''/ip4/127.0.0.1/tcp/4001/p2p/A/p2p-circuit'' then Some example_circuit
                       else None)\<rparr>"

definition example_addr :: "u8 na_addr" where
  "example_addr = \<lparr>peer_id = 42, multiaddr = Some example_ma, is_self = True\<rparr>"

definition example_relay_addr :: "u8 na_addr" where
  "example_relay_addr = \<lparr>peer_id = 42, multiaddr = Some example_circuit, is_self = False\<rparr>"

definition example_state :: "u8 na_state" where
  "example_state =
     \<lparr>op_box = Map.empty, addr_box = Map.empty, mh_box = Map.empty, memory = Map.empty, next_box = 1,
      self_addr = example_addr, queues = operation_queues_new, cmd_tx = [], cmd_closed = False,
      next_chan = 0, completion_rx = [], event_fd = 0, mem_handles = Map.empty, next_mem_handle_id = 1,
      transport_cfg = \<lparr>tc_tcp = True, tc_quic = False, tc_relay = False, tc_priority = TcpKind\<rparr>,
      listen_addrs = [example_ma], relay_addr = None, na_completions = []\<rparr>"

lemma example_state_simps [simp]:
  "op_box example_state = Map.empty"
  "addr_box example_state = Map.empty"
  "mh_box example_state = Map.empty"
  "memory example_state = Map.empty"
  "next_box example_state = 1"
  "self_addr example_state = example_addr"
  "queues example_state = operation_queues_new"
  "cmd_tx example_state = []"
  "cmd_closed example_state = False"
  "next_chan example_state = 0"
  "completion_rx example_state = []"
  "event_fd example_state = 0"
  "mem_handles example_state = Map.empty"
  "next_mem_handle_id example_state = 1"
  "listen_addrs example_state = [example_ma]"
  "na_completions example_state = []"
  by (simp_all add: example_state_def)

lemma example_addr_simps [simp]:
  "peer_id example_addr = 42" "multiaddr example_addr = Some example_ma" "is_self example_addr"
  "peer_id example_relay_addr = 42" "multiaddr example_relay_addr = Some example_circuit"
  "\<not> is_self example_relay_addr"
  by (simp_all add: example_addr_def example_relay_addr_def)

lemma example_ma_simps [simp]:
  "P2pCircuit \<notin> set example_ma" "P2pCircuit \<in> set example_circuit"
  by (simp_all add: example_ma_def example_circuit_def)

end
