(* ===== verification/Addressing.thy ===== *)
theory Addressing
  imports Plugin_State
begin

text \<open>
  Protocol discovery, transport configuration and the address operations of
  \<^verbatim>\<open>src/src/plugin.rs\<close>: \<^verbatim>\<open>check_protocol\<close>, \<^verbatim>\<open>parse_transport_config\<close>, the choice of the self
  address, lookup, printing, comparison and duplication of addresses.

  A C string argument is the Rust string that \<^verbatim>\<open>CStr::to_string_lossy\<close> makes of it.
\<close>

section \<open>Protocol discovery\<close>

text \<open>
  \<open>protocol_name\<close> is \<^const>\<open>None\<close> when the info or its name is null; \<open>alloc\<close> is Mercury's
  \<^verbatim>\<open>na_protocol_info_alloc\<close>.
\<close>

definition na_libp2p_get_protocol_info ::
  "string option \<Rightarrow> (string \<Rightarrow> string \<Rightarrow> string \<Rightarrow> 'i option) \<Rightarrow> na_return \<times> 'i option" where
  "na_libp2p_get_protocol_info protocol_name alloc =
     (let proto = (case protocol_name of Some s \<Rightarrow> s | None \<Rightarrow> ''tcp'') in
      case alloc ''libp2p'' proto ''tcp0'' of
        None \<Rightarrow> (NA_NOMEM, None)
      | Some info \<Rightarrow> (NA_SUCCESS, Some info))"

definition na_libp2p_check_protocol :: "string \<Rightarrow> bool" where
  "na_libp2p_check_protocol name \<longleftrightarrow>
     (if name = ''libp2p'' then True
      else list_all (\<lambda>part. trim part \<in> {''tcp'', ''quic'', ''relay''}) (split_on (CHR '','') name))"

section \<open>Transport configuration\<close>

text \<open>One round of the loop over the listed parts.\<close>

definition scan_part :: "string \<Rightarrow> bool \<times> bool \<times> bool \<Rightarrow> bool \<times> bool \<times> bool" where
  "scan_part part = (\<lambda>(tcp, quic, relay).
     if part = ''tcp'' then (True, quic, relay)
     else if part = ''quic'' then (tcp, True, relay)
     else if part = ''relay'' then (tcp, quic, True)
     else (tcp, quic, relay))"

definition parse_transport_config :: "string \<Rightarrow> transport_config" where
  "parse_transport_config protocol_name =
     (if protocol_name = [] \<or> protocol_name = ''libp2p''
      then \<lparr>tc_tcp = True, tc_quic = False, tc_relay = False, tc_priority = TcpKind\<rparr>
      else
        let parts = map trim (split_on (CHR '','') protocol_name);
            (tcp, quic, relay) = fold scan_part parts (False, False, False)
        in if \<not> tcp \<and> \<not> quic
           then \<lparr>tc_tcp = True, tc_quic = False, tc_relay = relay, tc_priority = TcpKind\<rparr>
           else \<lparr>tc_tcp = tcp, tc_quic = quic, tc_relay = relay,
                  tc_priority = (if hd parts = ''quic'' then QuicKind else TcpKind)\<rparr>)"

section \<open>The self address\<close>

datatype ip_addr = V4 u32 | V6 "128 word"

text \<open>
  \<^verbatim>\<open>hostname_ip\<close>: the results of binding a UDP socket, connecting it and asking for its
  local address, in that order.
\<close>

definition hostname_ip :: "unit option \<Rightarrow> unit option \<Rightarrow> ip_addr option \<Rightarrow> ip_addr option" where
  "hostname_ip bound connected local_addr = do { bound; connected; local_addr }"

text \<open>\<open>host\<close> is what \<^verbatim>\<open>hostname_ip()\<close> returns; an unspecified IPv4 address is 0.0.0.0.\<close>

definition resolve_component :: "ip_addr option \<Rightarrow> 'pid protocol \<Rightarrow> 'pid protocol" where
  "resolve_component host p =
     (case p of
        Ip4 ip \<Rightarrow>
          if ip = 0
          then (case (case host of Some a \<Rightarrow> a | None \<Rightarrow> V4 ip) of V4 v4 \<Rightarrow> Ip4 v4 | V6 v6 \<Rightarrow> Ip6 v6)
          else p
      | _ \<Rightarrow> p)"

definition resolve_multiaddr :: "ip_addr option \<Rightarrow> 'pid multiaddr \<Rightarrow> 'pid multiaddr" where
  "resolve_multiaddr host ma = fold (\<lambda>p result. result @ [resolve_component host p]) ma []"

text \<open>
  The eager \<^verbatim>\<open>unwrap_or(&resolved_addrs[0])\<close> panics on an empty list: \<^const>\<open>None\<close>.
\<close>

definition resolve_self_multiaddr ::
  "ip_addr option \<Rightarrow> 'pid multiaddr list \<Rightarrow> transport_kind \<Rightarrow> 'pid multiaddr option" where
  "resolve_self_multiaddr host resolved priority =
     (case resolved of
        [] \<Rightarrow> None
      | first # _ \<Rightarrow>
          let addr = (case priority of
                TcpKind \<Rightarrow> (case find (\<lambda>a. \<exists>p\<in>set a. is_tcp p) resolved of Some a \<Rightarrow> a | None \<Rightarrow> first)
              | QuicKind \<Rightarrow> (case find (\<lambda>a. \<exists>p\<in>set a. p = QuicV1) resolved of Some a \<Rightarrow> a | None \<Rightarrow> first))
          in Some (resolve_multiaddr host addr))"

section \<open>Lookup\<close>

definition strip_transport :: "string \<Rightarrow> string" where
  "strip_transport name =
     (case strip_prefix ''tcp:'' name of Some r \<Rightarrow> r
      | None \<Rightarrow> (case strip_prefix ''quic:'' name of Some r \<Rightarrow> r
      | None \<Rightarrow> (case strip_prefix ''relay:'' name of Some r \<Rightarrow> r
      | None \<Rightarrow> name)))"

text \<open>
  The parsing part of \<^verbatim>\<open>na_libp2p_addr_lookup\<close>; \<^const>\<open>None\<close> is a \<^verbatim>\<open>NA_PROTOCOL_ERROR\<close> return.
\<close>

definition parse_addr_name ::
  "'pid libp2p \<Rightarrow> string \<Rightarrow> ('pid \<times> 'pid multiaddr option) option" where
  "parse_addr_name L name =
     (let input = strip_transport name in
      case rfind ''/p2p/'' input of
        None \<Rightarrow> None
      | Some p2p_pos \<Rightarrow>
          (let transport_str = take p2p_pos input;
               peer_id_str = drop (p2p_pos + 5) input in
           case pid_parse L peer_id_str of
             None \<Rightarrow> None
           | Some pid \<Rightarrow>
               (if transport_str = [] then Some (pid, None)
                else case ma_parse L transport_str of
                       Some ma \<Rightarrow> Some (pid, Some ma)
                     | None \<Rightarrow> None)))"

text \<open>
  The whole lookup. For a relay address the NA thread blocks on the reply channel:
  \<open>reply\<close> gives what arrives on it, \<^const>\<open>None\<close> when the sender is dropped, as it is at once
  when the command channel is closed. The pointer is what is stored through \<^verbatim>\<open>addr_p\<close>.
\<close>

definition na_libp2p_addr_lookup ::
  "'pid libp2p \<Rightarrow> (nat \<Rightarrow> relay_connect_result option) \<Rightarrow> string \<Rightarrow> 'pid na_state
     \<Rightarrow> na_return \<times> ptr option \<times> 'pid na_state" where
  "na_libp2p_addr_lookup L reply name w =
     (case parse_addr_name L name of
        None \<Rightarrow> (NA_PROTOCOL_ERROR, None, w)
      | Some (pid, transport_ma) \<Rightarrow>
          let return_addr = (\<lambda>w. let (p, w') = alloc_boxed pid transport_ma False w
                                  in (NA_SUCCESS, Some p, w'))
          in if starts_with ''relay:'' name then
               (case transport_ma of
                  None \<Rightarrow> (NA_PROTOCOL_ERROR, None, w)
                | Some ma \<Rightarrow>
                    let chan = next_chan w;
                        w1 = send_cmd (ConnectViaRelay pid ma chan) (w\<lparr>next_chan := Suc chan\<rparr>)
                    in (case (if cmd_closed w then None else reply chan) of
                          Some Direct \<Rightarrow> return_addr w1
                        | Some RelayOnly \<Rightarrow> return_addr w1
                        | Some (Failed e) \<Rightarrow> (NA_PROTOCOL_ERROR, None, w1)
                        | None \<Rightarrow> (NA_PROTOCOL_ERROR, None, w1)))
             else
               return_addr (case transport_ma of
                              Some ma \<Rightarrow> send_cmd (AddKnownAddr pid ma) w
                            | None \<Rightarrow> w))"

section \<open>Address objects\<close>

definition na_libp2p_addr_free :: "ptr \<Rightarrow> 'pid na_state \<Rightarrow> 'pid na_state option" where
  "na_libp2p_addr_free addr w = (if addr = null_ptr then Some w else free_addr addr w)"

definition na_libp2p_addr_self :: "'pid na_state \<Rightarrow> na_return \<times> ptr \<times> 'pid na_state" where
  "na_libp2p_addr_self w = (let (p, w') = addr_dup_boxed (self_addr w) w in (NA_SUCCESS, p, w'))"

definition na_libp2p_addr_dup ::
  "ptr \<Rightarrow> 'pid na_state \<Rightarrow> (na_return \<times> ptr option \<times> 'pid na_state) option" where
  "na_libp2p_addr_dup addr w =
     (if addr = null_ptr then Some (NA_INVALID_ARG, None, w)
      else do {
        src \<leftarrow> addr_box w addr;
        let (p, w') = addr_dup_boxed src w;
        Some (NA_SUCCESS, Some p, w')
      })"

definition na_libp2p_addr_cmp :: "ptr \<Rightarrow> ptr \<Rightarrow> 'pid na_state \<Rightarrow> bool option" where
  "na_libp2p_addr_cmp addr1 addr2 w =
     (if addr1 = addr2 then Some True
      else if addr1 = null_ptr \<or> addr2 = null_ptr then Some False
      else do {
        a1 \<leftarrow> addr_box w addr1;
        a2 \<leftarrow> addr_box w addr2;
        Some (peer_id a1 = peer_id a2)
      })"

definition na_libp2p_addr_is_self :: "ptr \<Rightarrow> 'pid na_state \<Rightarrow> bool option" where
  "na_libp2p_addr_is_self addr w =
     (if addr = null_ptr then Some False
      else do {
        a \<leftarrow> addr_box w addr;
        Some (peer_id a = peer_id (self_addr w))
      })"

section \<open>Printing\<close>

text \<open>
  \<^verbatim>\<open>read_transport_hint\<close> reads the buffer byte by byte, at most ten, up to a NUL; a read
  outside the allocated bytes is a fault.
\<close>

fun read_hint_bytes :: "nat \<Rightarrow> ptr \<Rightarrow> (ptr \<rightharpoonup> u8) \<Rightarrow> bytes option" where
  "read_hint_bytes 0 p m = Some []"
| "read_hint_bytes (Suc n) p m =
     (case m p of
        None \<Rightarrow> None
      | Some b \<Rightarrow> if b = 0 then Some [] else map_option (Cons b) (read_hint_bytes n (Suc p) m))"

definition classify_hint :: "string \<Rightarrow> string option" where
  "classify_hint hint_str =
     (if starts_with ''tcp,relay'' hint_str then Some ''relay''
      else if starts_with ''relay'' hint_str then Some ''relay''
      else if starts_with ''quic'' hint_str then Some ''quic''
      else if starts_with ''tcp'' hint_str then Some ''tcp''
      else None)"

definition read_transport_hint :: "ptr \<Rightarrow> 'pid na_state \<Rightarrow> string option option" where
  "read_transport_hint buf w = do {
     bs \<leftarrow> read_hint_bytes 10 buf (memory w);
     let hint_bytes = bs @ replicate (10 - length bs) 0;
     let hint_str = (case from_utf8 hint_bytes of Some s \<Rightarrow> s | None \<Rightarrow> []);
     Some (classify_hint hint_str)
   }"

definition find_listen_addr_for_hint :: "'pid multiaddr list \<Rightarrow> string \<Rightarrow> 'pid multiaddr option" where
  "find_listen_addr_for_hint addrs hint =
     (if hint = ''tcp'' then find (\<lambda>a. \<exists>p\<in>set a. is_tcp p) addrs
      else if hint = ''quic'' then find (\<lambda>a. \<exists>p\<in>set a. p = QuicV1) addrs
      else if hint = ''relay'' then find (\<lambda>a. \<exists>p\<in>set a. p = P2pCircuit) addrs
      else None)"

text \<open>The string that \<^verbatim>\<open>addr_to_string\<close> prints for an address.\<close>

definition addr_string_for ::
  "'pid libp2p \<Rightarrow> bool \<Rightarrow> ptr \<Rightarrow> 'pid na_addr \<Rightarrow> 'pid na_state \<Rightarrow> string option" where
  "addr_string_for L class_null buf a w =
     (if is_self a \<and> buf \<noteq> null_ptr \<and> \<not> class_null then do {
        hint \<leftarrow> read_transport_hint buf w;
        Some (case hint of
            Some transport_hint \<Rightarrow>
              (case find_listen_addr_for_hint (listen_addrs w) transport_hint of
                 Some ma \<Rightarrow> transport_prefix_for_multiaddr ma @ '':'' @ ma_to_string L ma
                             @ ''/p2p/'' @ pid_to_string L (peer_id a)
               | None \<Rightarrow> to_addr_string L a)
          | None \<Rightarrow> to_addr_string L a)
      } else Some (to_addr_string L a))"

text \<open>
  \<open>buf_size\<close> is the value behind the in-out pointer, \<^const>\<open>None\<close> for a null pointer; the result
  carries its new value.
\<close>

definition na_libp2p_addr_to_string ::
  "'pid libp2p \<Rightarrow> bool \<Rightarrow> ptr \<Rightarrow> usize option \<Rightarrow> ptr \<Rightarrow> 'pid na_state
     \<Rightarrow> (na_return \<times> usize option \<times> 'pid na_state) option" where
  "na_libp2p_addr_to_string L class_null buf buf_size addr w =
     (case buf_size of
        None \<Rightarrow> Some (NA_INVALID_ARG, None, w)
      | Some avail \<Rightarrow>
          if addr = null_ptr then Some (NA_INVALID_ARG, buf_size, w)
          else do {
            a \<leftarrow> addr_box w addr;
            s \<leftarrow> addr_string_for L class_null buf a w;
            let needed = length s + 1;
            if buf = null_ptr then Some (NA_SUCCESS, Some (of_nat needed), w)
            else if unat avail < needed then Some (NA_OVERFLOW, Some (of_nat needed), w)
            else do {
              w1 \<leftarrow> copy_to buf (as_bytes s) w;
              w2 \<leftarrow> copy_to (buf + length s) [0] w1;
              Some (NA_SUCCESS, Some (of_nat needed), w2)
            }
          })"

section \<open>Transport configuration: lemmas\<close>

lemma fold_scan_part:
  "fold scan_part ps (t, q, r)
   = (t \<or> ''tcp'' \<in> set ps, q \<or> ''quic'' \<in> set ps, r \<or> ''relay'' \<in> set ps)"
  by (induction ps arbitrary: t q r) (auto simp: scan_part_def)

abbreviation transport_parts :: "string \<Rightarrow> string list" where
  "transport_parts name \<equiv> map trim (split_on (CHR '','') name)"

lemma transport_parts_Nil: "transport_parts [] = [[]]"
  by code_simp

lemma transport_parts_libp2p: "transport_parts ''libp2p'' = [''libp2p'']"
  by code_simp

text \<open>The transports a protocol name enables: QUIC and relay exactly when they are
  listed, TCP when it is listed or QUIC is not, so that at least one transport is enabled
  whatever the name.\<close>

lemma parse_transport_config_enables:
  "(tc_tcp (parse_transport_config name)
      \<longleftrightarrow> (if ''quic'' \<in> set (transport_parts name) then ''tcp'' \<in> set (transport_parts name) else True)) \<and>
   (tc_quic (parse_transport_config name) \<longleftrightarrow> ''quic'' \<in> set (transport_parts name)) \<and>
   (tc_relay (parse_transport_config name) \<longleftrightarrow> ''relay'' \<in> set (transport_parts name)) \<and>
   (tc_tcp (parse_transport_config name) \<or> tc_quic (parse_transport_config name))"
proof -
  consider "name = []" | "name = ''libp2p''" | "name \<noteq> []" "name \<noteq> ''libp2p''" by blast
  then show ?thesis
  proof cases
    case 1
    then show ?thesis using transport_parts_Nil by (simp add: parse_transport_config_def)
  next
    case 2
    then show ?thesis using transport_parts_libp2p by (simp add: parse_transport_config_def)
  next
    case 3
    then show ?thesis
      by (simp add: parse_transport_config_def Let_def fold_scan_part split: prod.splits)
  qed
qed

text \<open>C28: the priority transport is an enabled one, except for a name that lists QUIC, does
  not list TCP and does not begin with QUIC (such as \<^verbatim>\<open>relay,quic\<close>): then the priority is TCP,
  which is not enabled.\<close>

theorem parse_transport_config_priority:
  "(case tc_priority (parse_transport_config name) of
      QuicKind \<Rightarrow> tc_quic (parse_transport_config name)
    | TcpKind \<Rightarrow> tc_tcp (parse_transport_config name))
   \<longleftrightarrow> \<not> (''quic'' \<in> set (transport_parts name) \<and> ''tcp'' \<notin> set (transport_parts name) \<and>
          hd (transport_parts name) \<noteq> ''quic'')"
proof -
  consider "name = []" | "name = ''libp2p''" | "name \<noteq> []" "name \<noteq> ''libp2p''" by blast
  then show ?thesis
  proof cases
    case 1
    then show ?thesis using transport_parts_Nil by (simp add: parse_transport_config_def)
  next
    case 2
    then show ?thesis using transport_parts_libp2p by (simp add: parse_transport_config_def)
  next
    case 3
    have "hd (transport_parts name) \<in> set (transport_parts name)" by (intro hd_in_set) simp
    with 3 show ?thesis
      by (auto simp: parse_transport_config_def Let_def fold_scan_part split: prod.splits)
  qed
qed

section \<open>Resolution: lemmas\<close>

lemma resolve_multiaddr_map: "resolve_multiaddr host ma = map (resolve_component host) ma"
proof -
  have "fold (\<lambda>p result. result @ [resolve_component host p]) ma acc = acc @ map (resolve_component host) ma"
    for acc by (induction ma arbitrary: acc) simp_all
  then show ?thesis by (simp add: resolve_multiaddr_def)
qed

lemma resolve_component_other: "p \<noteq> Ip4 0 \<Longrightarrow> resolve_component host p = p"
  by (cases p) (auto simp: resolve_component_def)

lemma resolve_component_unspecified:
  "host \<noteq> None \<Longrightarrow> host \<noteq> Some (V4 0) \<Longrightarrow> resolve_component host p \<noteq> Ip4 0"
  by (cases p) (auto simp: resolve_component_def split: option.splits ip_addr.splits)

text \<open>When the host's address is known and is not itself 0.0.0.0, a resolved multiaddr
  has no unspecified IPv4 component left, and every other component is kept in place.\<close>

lemma resolve_multiaddr_concrete:
  assumes "host \<noteq> None" and "host \<noteq> Some (V4 0)"
  shows "Ip4 0 \<notin> set (resolve_multiaddr host ma) \<and>
     length (resolve_multiaddr host ma) = length ma \<and>
     (\<forall>i<length ma. ma ! i \<noteq> Ip4 0 \<longrightarrow> resolve_multiaddr host ma ! i = ma ! i)"
proof -
  have "Ip4 0 \<noteq> resolve_component host p" for p :: "'a protocol"
    using resolve_component_unspecified [OF assms] by (rule not_sym)
  then show ?thesis by (auto simp: resolve_multiaddr_map resolve_component_other)
qed

text \<open>The self address follows the priority transport: when a listen address of that
  transport exists, the self address is the first such one, resolved; it is never undefined
  once there is a listen address.\<close>

lemma resolve_self_multiaddr_priority:
  assumes "resolved = before @ a # after"
    and "\<forall>x\<in>set before. \<not> (case priority of TcpKind \<Rightarrow> \<exists>p\<in>set x. is_tcp p | QuicKind \<Rightarrow> QuicV1 \<in> set x)"
    and "case priority of TcpKind \<Rightarrow> \<exists>p\<in>set a. is_tcp p | QuicKind \<Rightarrow> QuicV1 \<in> set a"
  shows "resolve_self_multiaddr host resolved priority = Some (resolve_multiaddr host a)"
proof -
  have found: "find P resolved = Some a" if "P a" "\<forall>x\<in>set before. \<not> P x" for P
  proof -
    have "find P (before @ a # after) = Some a" using that by (induction before) auto
    then show ?thesis by (simp add: assms(1))
  qed
  have "resolved \<noteq> []" by (simp add: assms(1))
  then obtain first rest where resolved: "resolved = first # rest" by (cases resolved) auto
  show ?thesis
  proof (cases priority)
    case TcpKind
    with assms(2,3) have "find (\<lambda>a. \<exists>p\<in>set a. is_tcp p) resolved = Some a"
      by (intro found) simp_all
    then show ?thesis
      unfolding resolve_self_multiaddr_def TcpKind by (simp only: resolved list.case transport_kind.case option.case Let_def)
  next
    case QuicKind
    with assms(2,3) have "find (\<lambda>a. \<exists>p\<in>set a. p = QuicV1) resolved = Some a"
      by (intro found) simp_all
    then show ?thesis
      unfolding resolve_self_multiaddr_def QuicKind by (simp only: resolved list.case transport_kind.case option.case Let_def)
  qed
qed

section \<open>Lookup: lemmas\<close>

text \<open>
  What the code relies on of libp2p's text forms, for one address: parsing inverts printing,
  a peer id prints without a slash, and a multiaddr does not print as the empty string.
\<close>

definition address_codec :: "'pid libp2p \<Rightarrow> 'pid na_addr \<Rightarrow> bool" where
  "address_codec L a \<longleftrightarrow>
     pid_parse L (pid_to_string L (peer_id a)) = Some (peer_id a) \<and>
     CHR ''/'' \<notin> set (pid_to_string L (peer_id a)) \<and>
     (case multiaddr a of
        None \<Rightarrow> True
      | Some ma \<Rightarrow> ma_to_string L ma \<noteq> [] \<and> ma_parse L (ma_to_string L ma) = Some ma)"

lemma not_starts_with_p2p:
  assumes "CHR ''/'' \<notin> set x"
  shows "\<not> starts_with ''/p2p/'' (drop k (''p2p/'' @ x))"
proof
  assume "starts_with ''/p2p/'' (drop k (''p2p/'' @ x))"
  then obtain r where r: "drop k (''p2p/'' @ x) = ''/p2p/'' @ r"
    by (auto simp: starts_with_iff)
  have "k = 0 \<or> k = 1 \<or> k = 2 \<or> k = 3 \<or> (\<exists>i. k = i + 4)" by presburger
  then consider "k = 0" | "k = 1" | "k = 2" | "k = 3" | i where "k = i + 4" by blast
  then show False
  proof cases
    case 4
    with r have "x = ''p2p/'' @ r" by simp
    with assms show False by simp
  next
    case 5
    with r have "drop i x = ''/p2p/'' @ r" by (simp add: eval_nat_numeral)
    then have "CHR ''/'' \<in> set (drop i x)" by simp
    with assms show False by (meson in_set_dropD)
  qed (use r in simp_all)
qed

lemma rfind_p2p:
  assumes "CHR ''/'' \<notin> set x"
  shows "rfind ''/p2p/'' (t @ ''/p2p/'' @ x) = Some (length t)"
proof (rule rfind_eqI)
  fix j
  assume "length t < j"
  then obtain k where "j = length t + Suc k" by (metis add_Suc_right less_iff_Suc_add)
  with not_starts_with_p2p [OF assms, of k]
  show "\<not> starts_with ''/p2p/'' (drop j (t @ ''/p2p/'' @ x))" by simp
qed (simp_all add: starts_with_def)

lemma transport_prefix_cases:
  "transport_prefix_for_multiaddr ma \<in> {''relay'', ''quic'', ''tcp''}"
  by (simp add: transport_prefix_for_multiaddr_def)

lemma strip_transport_prefix [simp]:
  "strip_transport (transport_prefix_for_multiaddr ma @ '':'' @ r) = r"
  "strip_transport (''tcp:'' @ r) = r"
  using transport_prefix_cases [of ma]
  by (auto simp: strip_transport_def strip_prefix_def starts_with_def)

lemma starts_with_relay_prefix:
  "starts_with ''relay:'' (transport_prefix_for_multiaddr ma @ '':'' @ r) \<longleftrightarrow> P2pCircuit \<in> set ma"
  by (auto simp: transport_prefix_for_multiaddr_def starts_with_def)

text \<open>C23: an address printed by \<^verbatim>\<open>to_addr_string\<close> is parsed back by lookup into the same peer
  id and transport multiaddr, with or without a multiaddr, relayed or direct.\<close>

theorem parse_printed_addr:
  assumes "address_codec L a"
  shows "parse_addr_name L (to_addr_string L a) = Some (peer_id a, multiaddr a)"
proof (cases "multiaddr a")
  case None
  have "rfind ''/p2p/'' (''/p2p/'' @ pid_to_string L (peer_id a)) = Some 0"
    using rfind_p2p [of "pid_to_string L (peer_id a)" "[]"] assms by (simp add: address_codec_def)
  with None assms show ?thesis
    using strip_transport_prefix(2) [of "''/p2p/'' @ pid_to_string L (peer_id a)"]
    by (simp add: parse_addr_name_def to_addr_string_def address_codec_def Let_def)
next
  case (Some ma)
  have strip: "strip_transport (to_addr_string L a) = ma_to_string L ma @ ''/p2p/'' @ pid_to_string L (peer_id a)"
    unfolding to_addr_string_def Some option.case by (rule strip_transport_prefix)
  have find: "rfind ''/p2p/'' (ma_to_string L ma @ ''/p2p/'' @ pid_to_string L (peer_id a))
      = Some (length (ma_to_string L ma))"
    using assms by (intro rfind_p2p) (simp add: address_codec_def)
  show ?thesis
    using Some assms unfolding parse_addr_name_def strip Let_def find option.case
    by (simp add: address_codec_def)
qed

text \<open>Looking up the printed form of a direct address succeeds, returns a fresh address
  object for the same peer and multiaddr that is not marked as self, and queues exactly one
  \<^verbatim>\<open>AddKnownAddr\<close> command (none without a multiaddr).\<close>

lemma lookup_direct:
  assumes "address_codec L a"
    and "\<And>ma. multiaddr a = Some ma \<Longrightarrow> P2pCircuit \<notin> set ma"
    and "\<not> cmd_closed w"
  shows "\<exists>w'. na_libp2p_addr_lookup L reply (to_addr_string L a) w
           = (NA_SUCCESS, Some (next_box w), w') \<and>
     addr_box w' = (addr_box w)(next_box w \<mapsto> a\<lparr>is_self := False\<rparr>) \<and>
     cmd_tx w' = cmd_tx w @ (case multiaddr a of None \<Rightarrow> [] | Some ma \<Rightarrow> [AddKnownAddr (peer_id a) ma])"
proof -
  have direct: "\<not> starts_with ''relay:'' (to_addr_string L a)"
  proof (cases "multiaddr a")
    case None
    then show ?thesis by (simp add: to_addr_string_def starts_with_def)
  next
    case (Some ma)
    then show ?thesis
      using assms(2) starts_with_relay_prefix unfolding to_addr_string_def Some option.case by blast
  qed
  with parse_printed_addr [OF assms(1)] assms(3) show ?thesis
    by (cases a, cases "multiaddr a")
       (simp_all add: na_libp2p_addr_lookup_def Let_def alloc_boxed_def alloc_addr_def send_cmd_def)
qed

text \<open>C24: looking up the printed form of a relay circuit address queues one
  \<^verbatim>\<open>ConnectViaRelay\<close> command and blocks for its answer: it succeeds exactly when the answer is a
  direct or a relayed connection, and otherwise returns a protocol error without
  allocating an address.\<close>

theorem lookup_relay:
  assumes "address_codec L a" and "multiaddr a = Some ma" and "P2pCircuit \<in> set ma"
    and "\<not> cmd_closed w"
  shows "\<exists>ret out w'. na_libp2p_addr_lookup L reply (to_addr_string L a) w = (ret, out, w') \<and>
     cmd_tx w' = cmd_tx w @ [ConnectViaRelay (peer_id a) ma (next_chan w)] \<and>
     (if reply (next_chan w) \<in> {Some Direct, Some RelayOnly}
      then ret = NA_SUCCESS \<and> out = Some (next_box w) \<and>
           addr_box w' = (addr_box w)(next_box w \<mapsto> a\<lparr>is_self := False\<rparr>)
      else ret = NA_PROTOCOL_ERROR \<and> out = None \<and> addr_box w' = addr_box w)"
proof -
  have relay: "starts_with ''relay:'' (to_addr_string L a)"
    using assms(3) starts_with_relay_prefix unfolding to_addr_string_def assms(2) option.case by blast
  have "a = \<lparr>peer_id = peer_id a, multiaddr = Some ma, is_self = is_self a\<rparr>"
    using assms(2) by (cases a) simp
  with parse_printed_addr [OF assms(1)] relay assms(2,4) show ?thesis
    by (cases a, cases "reply (next_chan w)")
       (auto simp: na_libp2p_addr_lookup_def Let_def alloc_boxed_def alloc_addr_def send_cmd_def
         split: relay_connect_result.splits)
qed

text \<open>C27: a name with the \<^verbatim>\<open>libp2p:\<close> prefix, which the README shows as the address format, is
  rejected: the prefix is not stripped, and no multiaddr begins without a slash.\<close>

theorem lookup_libp2p_prefix_rejected:
  assumes "\<And>s. s \<noteq> [] \<Longrightarrow> hd s \<noteq> CHR ''/'' \<Longrightarrow> ma_parse L s = None"
  shows "na_libp2p_addr_lookup L reply (''libp2p:'' @ rest) w = (NA_PROTOCOL_ERROR, None, w)"
proof -
  have strip: "strip_transport (''libp2p:'' @ rest) = ''libp2p:'' @ rest"
    by (simp add: strip_transport_def strip_prefix_def starts_with_def)
  have "parse_addr_name L (''libp2p:'' @ rest) = None"
  proof (cases "rfind ''/p2p/'' (''libp2p:'' @ rest)")
    case None
    then show ?thesis unfolding parse_addr_name_def strip Let_def by simp
  next
    case (Some i)
    from rfind_Some [OF Some] have "starts_with ''/p2p/'' (drop i (''libp2p:'' @ rest))" by blast
    then obtain k where i: "i = Suc k" by (cases i) (auto simp: starts_with_def)
    have "ma_parse L (take i (''libp2p:'' @ rest)) = None"
      by (rule assms) (simp_all add: i)
    moreover have "take i (''libp2p:'' @ rest) \<noteq> []" by (simp add: i)
    ultimately show ?thesis
      unfolding parse_addr_name_def strip Let_def Some option.case
      by (simp split: option.splits)
  qed
  then show ?thesis by (simp add: na_libp2p_addr_lookup_def)
qed

lemma example_address_codec [simp]:
  "address_codec example_lib example_addr"
  "address_codec example_lib example_relay_addr"
  by code_simp+

theorem parse_printed_addr_witness:
  "parse_addr_name example_lib (to_addr_string example_lib example_relay_addr)
   = Some (peer_id example_relay_addr, multiaddr example_relay_addr)"
  by (rule parse_printed_addr) simp

theorem lookup_relay_witness:
  "\<exists>ret out w'. na_libp2p_addr_lookup example_lib (\<lambda>_. Some RelayOnly)
        (to_addr_string example_lib example_relay_addr) example_state = (ret, out, w') \<and>
     cmd_tx w' = [ConnectViaRelay 42 example_circuit 0] \<and> ret = NA_SUCCESS \<and> out = Some 1"
  using lookup_relay [of example_lib example_relay_addr example_circuit example_state "\<lambda>_. Some RelayOnly"]
  by auto

theorem lookup_libp2p_prefix_rejected_witness:
  "na_libp2p_addr_lookup example_lib (\<lambda>_. None) (''libp2p:'' @ ''/ip4/127.0.0.1/tcp/4001/p2p/*'') example_state
   = (NA_PROTOCOL_ERROR, None, example_state)"
  by (rule lookup_libp2p_prefix_rejected) (auto simp: example_lib_def split: if_splits)

section \<open>Printing into the client's buffer\<close>

lemma copy_to_Some:
  assumes "region p (length bs) (memory w)"
  shows "copy_to p bs w = Some (w\<lparr>memory := \<lambda>q. if p \<le> q \<and> q < p + length bs
            then Some (bs ! (q - p)) else memory w q\<rparr>)"
  using assms by (simp add: copy_to_def store_bytes_eq)

lemma copy_to_pair:
  "Option.bind (copy_to p as w) (copy_to (p + length as) bs) = copy_to p (as @ bs) w"
  by (cases "store_bytes p as (memory w)")
     (simp_all add: copy_to_def store_bytes_append option.map_comp comp_def)

text \<open>Printing an address into a buffer that is large enough writes the string and its
  terminating NUL, reports their length and changes no byte outside them; into a smaller
  buffer it writes nothing, reports the length that is needed and returns an overflow.\<close>

lemma addr_to_string_writes:
  assumes "addr \<noteq> null_ptr" and "addr_box w addr = Some a" and "buf \<noteq> null_ptr"
    and "addr_string_for L class_null buf a w = Some s"
    and "region buf (unat avail) (memory w)"
  shows "if length s < unat avail
     then \<exists>m. na_libp2p_addr_to_string L class_null buf (Some avail) addr w
            = Some (NA_SUCCESS, Some (of_nat (length s + 1)), w\<lparr>memory := m\<rparr>) \<and>
          load_bytes buf (length s + 1) m = Some (as_bytes s @ [0]) \<and>
          (\<forall>q. q < buf \<or> buf + length s < q \<longrightarrow> m q = memory w q)
     else na_libp2p_addr_to_string L class_null buf (Some avail) addr w
            = Some (NA_OVERFLOW, Some (of_nat (length s + 1)), w)"
proof (cases "length s < unat avail")
  case False
  with assms show ?thesis by (simp add: na_libp2p_addr_to_string_def)
next
  case True
  let ?bs = "as_bytes s @ [0]"
  have reg: "region buf (length ?bs) (memory w)"
    using mem.valid_mono [OF assms(5), of buf "length ?bs"] True by simp
  from mem.store_total [OF reg order_refl] obtain m where m: "store_bytes buf ?bs (memory w) = Some m"
    by blast
  have "na_libp2p_addr_to_string L class_null buf (Some avail) addr w
      = map_option (\<lambda>w'. (NA_SUCCESS, Some (of_nat (length s + 1)), w'))
          (Option.bind (copy_to buf (as_bytes s) w) (copy_to (buf + length (as_bytes s)) [0]))"
    using assms True by (simp add: na_libp2p_addr_to_string_def Let_def map_option_bind
        map_conv_bind_option comp_def)
  also have "\<dots> = Some (NA_SUCCESS, Some (of_nat (length s + 1)), w\<lparr>memory := m\<rparr>)"
    unfolding copy_to_pair by (simp add: copy_to_def m)
  finally have run: "na_libp2p_addr_to_string L class_null buf (Some avail) addr w
      = Some (NA_SUCCESS, Some (of_nat (length s + 1)), w\<lparr>memory := m\<rparr>)" .
  have frame: "\<forall>q. q < buf \<or> buf + length s < q \<longrightarrow> m q = memory w q"
    using m reg by (auto simp: store_bytes_eq split: if_splits)
  show ?thesis
    using True run frame mem.load_store_same [OF m] by (intro if_P [THEN iffD2] exI [of _ m]) simp_all
qed

lemma read_hint_bytes_region: "region p n m \<Longrightarrow> read_hint_bytes n p m \<noteq> None"
proof (induction n arbitrary: p)
  case 0
  then show ?case by simp
next
  case (Suc n)
  from Suc.prems have "m p \<noteq> None" "region (Suc p) n m" by (auto simp: region_def)
  with Suc.IH show ?case by auto
qed

lemma addr_string_for_defined:
  assumes "region buf 10 (memory w)"
  shows "addr_string_for L class_null buf a w \<noteq> None"
  using read_hint_bytes_region [OF assms]
  by (auto simp: addr_string_for_def read_transport_hint_def Let_def)

lemma read_hint_bytes_overrun:
  assumes "\<And>i. i < n \<Longrightarrow> \<exists>b. m (p + i) = Some b \<and> b \<noteq> 0" and "m (p + n) = None" and "n < k"
  shows "read_hint_bytes k p m = None"
  using assms
proof (induction n arbitrary: p k)
  case 0
  then show ?case by (cases k) simp_all
next
  case (Suc n)
  then obtain k' where k: "k = Suc k'" "n < k'" by (cases k) auto
  from Suc.prems(1) [of 0] obtain b where b: "m p = Some b" "b \<noteq> 0" by auto
  have "read_hint_bytes k' (Suc p) m = None"
  proof (rule Suc.IH)
    show "\<exists>b. m (Suc p + i) = Some b \<and> b \<noteq> 0" if "i < n" for i
      using Suc.prems(1) [of "Suc i"] that by simp
  qed (use Suc.prems(2) k in simp_all)
  with b k show ?case by simp
qed

text \<open>C26: printing the self address reads the client's buffer beyond its size: with a buffer
  of fewer than ten allocated bytes, none of them NUL, the call has no defined behaviour,
  although the size passed to it is the size of the buffer.\<close>

theorem addr_to_string_hint_overrun:
  assumes "addr \<noteq> null_ptr" and "addr_box w addr = Some a" and "is_self a" and "buf \<noteq> null_ptr"
    and "unat avail < 10"
    and "\<And>i. i < unat avail \<Longrightarrow> \<exists>b. memory w (buf + i) = Some b \<and> b \<noteq> 0"
    and "memory w (buf + unat avail) = None"
  shows "na_libp2p_addr_to_string L False buf (Some avail) addr w = None"
proof -
  have "read_hint_bytes 10 buf (memory w) = None"
    using assms(6,7,5) by (rule read_hint_bytes_overrun)
  with assms(1-4) show ?thesis
    by (simp add: na_libp2p_addr_to_string_def addr_string_for_def read_transport_hint_def)
qed

definition printing_state :: "nat \<Rightarrow> u8 \<Rightarrow> u8 na_state" where
  "printing_state n b = example_state\<lparr>addr_box := [5 \<mapsto> example_addr],
     memory := (\<lambda>q. if 100 \<le> q \<and> q < 100 + n then Some b else None)\<rparr>"

lemma printing_state_simps [simp]:
  "addr_box (printing_state n b) = [5 \<mapsto> example_addr]"
  "memory (printing_state n b) = (\<lambda>q. if 100 \<le> q \<and> q < 100 + n then Some b else None)"
  by (simp_all add: printing_state_def)

theorem addr_to_string_hint_overrun_witness:
  "na_libp2p_addr_to_string example_lib False 100 (Some 4) 5 (printing_state 4 65) = None"
  by (rule addr_to_string_hint_overrun [where a = example_addr]) auto

end
