(* ===== verification/Serialization.thy ===== *)
theory Serialization
  imports Addressing
begin

text \<open>
  The byte forms that the plugin hands to other processes (\<^verbatim>\<open>src/src/plugin.rs\<close>): addresses
  and memory handles, with their size, serialization into a client buffer and
  deserialization from one.
\<close>

section \<open>Writing pieces into a buffer\<close>

text \<open>
  The macro \<^verbatim>\<open>write_bytes!\<close> in sequence: each piece is checked against the buffer size and
  copied behind the previous ones; the first that does not fit ends the call.
\<close>

fun write_pieces ::
  "ptr \<Rightarrow> usize \<Rightarrow> nat \<Rightarrow> bytes list \<Rightarrow> 'pid na_state \<Rightarrow> (na_return \<times> 'pid na_state) option" where
  "write_pieces out buf_size pos [] w = Some (NA_SUCCESS, w)"
| "write_pieces out buf_size pos (d # ds) w =
     (if pos + length d > unat buf_size then Some (NA_OVERFLOW, w)
      else do {
        w' \<leftarrow> copy_to (out + pos) d w;
        write_pieces out buf_size (pos + length d) ds w'
      })"

text \<open>A slice \<^verbatim>\<open>data[i..j]\<close>, which panics out of range (\<^const>\<open>None\<close>).\<close>

definition slice_range :: "'a list \<Rightarrow> nat \<Rightarrow> nat \<Rightarrow> 'a list option" where
  "slice_range xs i j = (if i \<le> j \<and> j \<le> length xs then Some (take (j - i) (drop i xs)) else None)"

section \<open>Addresses\<close>

definition ma_string :: "'pid libp2p \<Rightarrow> 'pid na_addr \<Rightarrow> string" where
  "ma_string L a = (case multiaddr a of Some m \<Rightarrow> ma_to_string L m | None \<Rightarrow> [])"

definition na_libp2p_addr_get_serialize_size ::
  "'pid libp2p \<Rightarrow> ptr \<Rightarrow> 'pid na_state \<Rightarrow> nat option" where
  "na_libp2p_addr_get_serialize_size L addr w =
     (if addr = null_ptr then Some 0
      else do {
        a \<leftarrow> addr_box w addr;
        let peer_bytes = pid_to_bytes L (peer_id a);
        let ma_str_len = length (ma_string L a);
        Some (2 + length peer_bytes + 2 + ma_str_len)
      })"

definition addr_pieces :: "'pid libp2p \<Rightarrow> 'pid na_addr \<Rightarrow> bytes list" where
  "addr_pieces L a =
     (let peer_bytes = pid_to_bytes L (peer_id a);
          ma_bytes = as_bytes (ma_string L a)
      in [to_be_bytes (of_nat (length peer_bytes) :: u16), peer_bytes,
          to_be_bytes (of_nat (length ma_bytes) :: u16), ma_bytes])"

definition na_libp2p_addr_serialize ::
  "'pid libp2p \<Rightarrow> ptr \<Rightarrow> usize \<Rightarrow> ptr \<Rightarrow> 'pid na_state \<Rightarrow> (na_return \<times> 'pid na_state) option" where
  "na_libp2p_addr_serialize L buf buf_size addr w =
     (if addr = null_ptr \<or> buf = null_ptr then Some (NA_INVALID_ARG, w)
      else do {
        a \<leftarrow> addr_box w addr;
        write_pieces buf buf_size 0 (addr_pieces L a) w
      })"

text \<open>
  Decoding the bytes of the buffer: the outer \<^const>\<open>None\<close> is a panic of a slice, the inner
  one a \<^verbatim>\<open>NA_PROTOCOL_ERROR\<close> return.
\<close>

definition decode_multiaddr ::
  "'pid libp2p \<Rightarrow> bytes \<Rightarrow> nat \<Rightarrow> 'pid \<Rightarrow> ('pid \<times> 'pid multiaddr option) option option" where
  "decode_multiaddr L data pos pid =
     (if pos + 2 > length data then Some None
      else do {
        len_bytes \<leftarrow> slice_range data pos (pos + 2);
        let ma_len = unat (from_be_bytes len_bytes :: u16);
        let pos = pos + 2;
        if ma_len > 0 then
          (if pos + ma_len > length data then Some None
           else do {
             ma_bytes \<leftarrow> slice_range data pos (pos + ma_len);
             Some (do {
               ma_str \<leftarrow> from_utf8 ma_bytes;
               ma \<leftarrow> ma_parse L ma_str;
               Some (pid, Some ma)
             })
           })
        else Some (Some (pid, None))
      })"

definition decode_addr ::
  "'pid libp2p \<Rightarrow> bytes \<Rightarrow> ('pid \<times> 'pid multiaddr option) option option" where
  "decode_addr L data =
     (if 2 > length data then Some None
      else do {
        len_bytes \<leftarrow> slice_range data 0 2;
        let peer_id_len = unat (from_be_bytes len_bytes :: u16);
        if 2 + peer_id_len > length data then Some None
        else do {
          peer_bytes \<leftarrow> slice_range data 2 (2 + peer_id_len);
          case pid_from_bytes L peer_bytes of
            None \<Rightarrow> Some None
          | Some pid \<Rightarrow> decode_multiaddr L data (2 + peer_id_len) pid
        }
      })"

definition na_libp2p_addr_deserialize ::
  "'pid libp2p \<Rightarrow> bool \<Rightarrow> ptr \<Rightarrow> usize \<Rightarrow> 'pid na_state
     \<Rightarrow> (na_return \<times> ptr option \<times> 'pid na_state) option" where
  "na_libp2p_addr_deserialize L addr_p_null buf buf_size w =
     (if buf = null_ptr \<or> addr_p_null \<or> buf_size < 4 then Some (NA_INVALID_ARG, None, w)
      else do {
        data \<leftarrow> copy_from buf (unat buf_size) w;
        decoded \<leftarrow> decode_addr L data;
        Some (case decoded of
            None \<Rightarrow> (NA_PROTOCOL_ERROR, None, w)
          | Some (pid, ma) \<Rightarrow>
              let (p, w') = alloc_boxed pid ma False w in (NA_SUCCESS, Some p, w'))
      })"

section \<open>Memory handles\<close>

definition handle_peer :: "'pid mem_handle \<Rightarrow> 'pid na_state \<Rightarrow> 'pid" where
  "handle_peer h w = (case mh_owner_peer_id h of Some p \<Rightarrow> p | None \<Rightarrow> peer_id (self_addr w))"

definition na_libp2p_mem_handle_get_serialize_size ::
  "'pid libp2p \<Rightarrow> ptr \<Rightarrow> 'pid na_state \<Rightarrow> nat option" where
  "na_libp2p_mem_handle_get_serialize_size L mem_handle w =
     (if mem_handle = null_ptr then Some 0
      else do {
        h \<leftarrow> mh_box w mem_handle;
        Some (8 + 8 + 8 + 2 + length (pid_to_bytes L (handle_peer h w)))
      })"

definition handle_pieces :: "'pid libp2p \<Rightarrow> 'pid \<Rightarrow> 'pid mem_handle \<Rightarrow> bytes list" where
  "handle_pieces L peer h =
     (let peer_bytes = pid_to_bytes L peer
      in [to_be_bytes (mh_handle_id h), to_be_bytes (mh_buf_size h), to_be_bytes (mh_flags h),
          to_be_bytes (of_nat (length peer_bytes) :: u16), peer_bytes])"

definition na_libp2p_mem_handle_serialize ::
  "'pid libp2p \<Rightarrow> ptr \<Rightarrow> usize \<Rightarrow> ptr \<Rightarrow> 'pid na_state \<Rightarrow> (na_return \<times> 'pid na_state) option" where
  "na_libp2p_mem_handle_serialize L buf buf_size mem_handle w =
     (if buf = null_ptr \<or> mem_handle = null_ptr then Some (NA_INVALID_ARG, w)
      else do {
        h \<leftarrow> mh_box w mem_handle;
        write_pieces buf buf_size 0 (handle_pieces L (handle_peer h w) h) w
      })"

definition decode_mem_handle ::
  "'pid libp2p \<Rightarrow> bytes \<Rightarrow> 'pid mem_handle option option" where
  "decode_mem_handle L data = do {
     b1 \<leftarrow> slice_range data 0 8;
     b2 \<leftarrow> slice_range data 8 16;
     b3 \<leftarrow> slice_range data 16 24;
     if 24 + 2 > length data then Some None
     else do {
       len_bytes \<leftarrow> slice_range data 24 26;
       let peer_id_len = unat (from_be_bytes len_bytes :: u16);
       if 26 + peer_id_len > length data then Some None
       else do {
         peer_bytes \<leftarrow> slice_range data 26 (26 + peer_id_len);
         Some (do {
           pid \<leftarrow> pid_from_bytes L peer_bytes;
           Some \<lparr>mh_buf = null_ptr, mh_buf_size = from_be_bytes b2, mh_handle_id = from_be_bytes b1,
                  mh_flags = from_be_bytes b3, mh_owner_peer_id = Some pid\<rparr>
         })
       }
     }
   }"

definition alloc_mem_handle :: "'pid mem_handle \<Rightarrow> 'pid na_state \<Rightarrow> ptr \<times> 'pid na_state" where
  "alloc_mem_handle h w =
     (next_box w, w\<lparr>mh_box := (mh_box w)(next_box w \<mapsto> h), next_box := Suc (next_box w)\<rparr>)"

definition na_libp2p_mem_handle_deserialize ::
  "'pid libp2p \<Rightarrow> bool \<Rightarrow> ptr \<Rightarrow> usize \<Rightarrow> 'pid na_state
     \<Rightarrow> (na_return \<times> ptr option \<times> 'pid na_state) option" where
  "na_libp2p_mem_handle_deserialize L mem_handle_p_null buf buf_size w =
     (if buf = null_ptr \<or> mem_handle_p_null \<or> buf_size < 26 then Some (NA_INVALID_ARG, None, w)
      else do {
        data \<leftarrow> copy_from buf (unat buf_size) w;
        decoded \<leftarrow> decode_mem_handle L data;
        Some (case decoded of
            None \<Rightarrow> (NA_PROTOCOL_ERROR, None, w)
          | Some h \<Rightarrow> let (p, w') = alloc_mem_handle h w in (NA_SUCCESS, Some p, w'))
      })"

section \<open>Lemmas on the pieces\<close>

lemma slice_range_append [simp]: "slice_range (xs @ ys @ zs) (length xs) (length xs + length ys) = Some ys"
  by (simp add: slice_range_def)

lemma slice_range_in: "i \<le> j \<Longrightarrow> j \<le> length xs \<Longrightarrow> slice_range xs i j = Some (take (j - i) (drop i xs))"
  by (simp add: slice_range_def)

lemma write_pieces_spec:
  assumes "region out (unat buf_size) (memory w)" and "pos \<le> unat buf_size"
  shows "\<exists>m. write_pieces out buf_size pos ds w =
       Some (if pos + length (concat ds) \<le> unat buf_size then NA_SUCCESS else NA_OVERFLOW,
             w\<lparr>memory := m\<rparr>) \<and>
     (\<forall>q. q < out + pos \<or> out + unat buf_size \<le> q \<longrightarrow> m q = memory w q) \<and>
     (pos + length (concat ds) \<le> unat buf_size \<longrightarrow>
        store_bytes (out + pos) (concat ds) (memory w) = Some m)"
  using assms
proof (induction ds arbitrary: pos w)
  case Nil
  then show ?case by (intro exI [of _ "memory w"]) simp
next
  case (Cons d ds)
  show ?case
  proof (cases "pos + length d > unat buf_size")
    case True
    then show ?thesis by (intro exI [of _ "memory w"]) simp
  next
    case False
    have "region (out + pos) (length d) (memory w)"
      using Cons.prems(1) False by (intro mem.valid_mono [OF Cons.prems(1)]) simp_all
    from mem.store_total [OF this order_refl] obtain m1
      where m1: "store_bytes (out + pos) d (memory w) = Some m1" by blast
    have frame: "m1 q = memory w q" if "q < out + pos \<or> out + pos + length d \<le> q" for q
      using m1 that by (auto simp: store_bytes_eq split: if_splits)
    have "region out (unat buf_size) (memory (w\<lparr>memory := m1\<rparr>))"
      using Cons.prems(1) mem.valid_store [OF m1] by simp
    from Cons.IH [OF this, of "pos + length d"] False obtain m where m:
      "write_pieces out buf_size (pos + length d) ds (w\<lparr>memory := m1\<rparr>) =
         Some (if pos + length d + length (concat ds) \<le> unat buf_size then NA_SUCCESS else NA_OVERFLOW,
               w\<lparr>memory := m\<rparr>)"
      "\<forall>q. q < out + (pos + length d) \<or> out + unat buf_size \<le> q \<longrightarrow> m q = m1 q"
      "pos + length d + length (concat ds) \<le> unat buf_size \<longrightarrow>
         store_bytes (out + pos + length d) (concat ds) m1 = Some m"
      by (auto simp: add.assoc)
    have "write_pieces out buf_size pos (d # ds) w =
       Some (if pos + length (concat (d # ds)) \<le> unat buf_size then NA_SUCCESS else NA_OVERFLOW,
             w\<lparr>memory := m\<rparr>)"
      using False m(1) by (simp add: copy_to_def m1 add.assoc)
    moreover have "\<forall>q. q < out + pos \<or> out + unat buf_size \<le> q \<longrightarrow> m q = memory w q"
      using m(2) frame False by auto
    moreover have "pos + length (concat (d # ds)) \<le> unat buf_size \<longrightarrow>
        store_bytes (out + pos) (concat (d # ds)) (memory w) = Some m"
      using m(3) m1 by (simp add: store_bytes_append add.assoc)
    ultimately show ?thesis by blast
  qed
qed

section \<open>The interface of a byte form\<close>

text \<open>
  A byte form is written piece by piece and decoded from a buffer that may have more bytes
  behind it; decoding never panics on a buffer of the accepted size.
\<close>

locale buffer_codec =
  fixes pieces :: "'a \<Rightarrow> bytes list"
    and decode :: "bytes \<Rightarrow> 'b option option"
    and view :: "'a \<Rightarrow> 'b"
    and ok :: "'a \<Rightarrow> bool"
    and min_size :: nat
  assumes decode_pieces: "ok x \<Longrightarrow> decode (concat (pieces x) @ junk) = Some (Some (view x))"
    and decode_total: "min_size \<le> length data \<Longrightarrow> decode data \<noteq> None"
begin

lemma write_then_decode:
  assumes "ok x" and "region out (unat buf_size) (memory w)"
    and "length (concat (pieces x)) \<le> unat buf_size"
  obtains m data where "write_pieces out buf_size 0 (pieces x) w = Some (NA_SUCCESS, w\<lparr>memory := m\<rparr>)"
    and "load_bytes out (unat buf_size) m = Some data"
    and "decode data = Some (Some (view x))"
proof -
  let ?n = "length (concat (pieces x))"
  from write_pieces_spec [OF assms(2), of 0 "pieces x"] assms(3) obtain m where
    run: "write_pieces out buf_size 0 (pieces x) w = Some (NA_SUCCESS, w\<lparr>memory := m\<rparr>)"
    and m: "store_bytes out (concat (pieces x)) (memory w) = Some m"
    by auto
  have reg: "region out (unat buf_size) m" using assms(2) mem.valid_store [OF m] by simp
  from mem.load_total [OF reg order_refl] obtain data where
    data: "load_bytes out (unat buf_size) m = Some data" "length data = unat buf_size" by blast
  have "take ?n data = concat (pieces x)"
    using mem.load_store_same [OF m] data assms(3)
    by (auto simp: load_bytes_eq take_map take_upt split: if_splits)
  then have "data = concat (pieces x) @ drop ?n data" by (metis append_take_drop_id)
  then have "decode data = Some (Some (view x))" using decode_pieces [OF assms(1)] by metis
  with run data(1) show ?thesis by (rule that)
qed

end

section \<open>The two byte forms\<close>

text \<open>What is relied on of libp2p for one address.\<close>

definition serial_codec :: "'pid libp2p \<Rightarrow> 'pid na_addr \<Rightarrow> bool" where
  "serial_codec L a \<longleftrightarrow>
     peer_codec (pid_to_bytes L) (pid_from_bytes L) (peer_id a) \<and>
     (case multiaddr a of
        None \<Rightarrow> True
      | Some ma \<Rightarrow> ma_to_string L ma \<noteq> [] \<and> length (ma_to_string L ma) < 2 ^ 16 \<and>
          utf8_valid (as_bytes (ma_to_string L ma)) \<and> ma_parse L (ma_to_string L ma) = Some ma)"

lemma unat_u16_length: "length xs < 2 ^ 16 \<Longrightarrow> unat (of_nat (length xs) :: u16) = length xs"
  by (simp add: unat_of_nat)

lemma ma_string_length: "serial_codec L a \<Longrightarrow> length (ma_string L a) < 2 ^ 16"
  by (auto simp: serial_codec_def ma_string_def split: option.splits)

lemma decode_multiaddr_pieces:
  assumes "serial_codec L a" and "pos = length pre"
  shows "decode_multiaddr L (pre @ to_be_bytes (of_nat (length (ma_string L a)) :: u16)
             @ as_bytes (ma_string L a) @ junk) pos (peer_id a)
     = Some (Some (peer_id a, multiaddr a))"
proof -
  let ?len = "to_be_bytes (of_nat (length (ma_string L a)) :: u16)"
  let ?ma = "as_bytes (ma_string L a)"
  have s1: "slice_range (pre @ ?len @ ?ma @ junk) pos (pos + 2) = Some ?len"
    using slice_range_append [of pre ?len "?ma @ junk"] assms(2) by simp
  have s2: "slice_range (pre @ ?len @ ?ma @ junk) (pos + 2) (pos + 2 + length (ma_string L a)) = Some ?ma"
    using slice_range_append [of "pre @ ?len" ?ma junk] assms(2) by simp
  have n: "unat (from_be_bytes ?len :: u16) = length (ma_string L a)"
    using ma_string_length [OF assms(1)] by (simp add: unat_u16_length)
  show ?thesis
  proof (cases "multiaddr a")
    case None
    then have "ma_string L a = []" by (simp add: ma_string_def)
    with s1 n None show ?thesis by (simp add: decode_multiaddr_def assms(2))
  next
    case (Some ma)
    then have ma: "ma_string L a = ma_to_string L ma" by (simp add: ma_string_def)
    have "ma_to_string L ma \<noteq> []" "from_utf8 ?ma = Some (ma_to_string L ma)"
      "ma_parse L (ma_to_string L ma) = Some ma"
      using assms(1) Some by (simp_all add: serial_codec_def from_utf8_def ma)
    with s1 s2 n Some ma show ?thesis by (simp add: decode_multiaddr_def assms(2))
  qed
qed

lemma decode_addr_pieces:
  assumes "serial_codec L a"
  shows "decode_addr L (concat (addr_pieces L a) @ junk) = Some (Some (peer_id a, multiaddr a))"
proof -
  let ?peer = "pid_to_bytes L (peer_id a)"
  let ?len = "to_be_bytes (of_nat (length ?peer) :: u16)"
  let ?rest = "to_be_bytes (of_nat (length (ma_string L a)) :: u16) @ as_bytes (ma_string L a) @ junk"
  have data: "concat (addr_pieces L a) @ junk = ?len @ ?peer @ ?rest"
    by (simp add: addr_pieces_def Let_def)
  have n: "unat (from_be_bytes ?len :: u16) = length ?peer"
    and pid: "pid_from_bytes L ?peer = Some (peer_id a)"
    using assms by (simp_all add: serial_codec_def peer_codec_def unat_u16_length)
  have s1: "slice_range (?len @ ?peer @ ?rest) 0 2 = Some ?len"
    using slice_range_append [of "[]" ?len "?peer @ ?rest"] by (simp add: numeral_2_eq_2)
  have s2: "slice_range (?len @ ?peer @ ?rest) 2 (2 + length ?peer) = Some ?peer"
    using slice_range_append [of ?len ?peer ?rest] by simp
  have "decode_multiaddr L ((?len @ ?peer) @ ?rest) (2 + length ?peer) (peer_id a)
      = Some (Some (peer_id a, multiaddr a))"
    by (rule decode_multiaddr_pieces [OF assms]) simp
  then show ?thesis
    unfolding data decode_addr_def using s1 s2 n pid by simp
qed

lemma decode_addr_total: "decode_addr L data \<noteq> None"
  by (auto simp: decode_addr_def decode_multiaddr_def slice_range_def Let_def split: option.splits)

interpretation addr_form: buffer_codec "addr_pieces L" "decode_addr L"
  "\<lambda>a. (peer_id a, multiaddr a)" "serial_codec L" 4
  for L :: "'pid libp2p"
  by unfold_locales (simp_all add: decode_addr_pieces decode_addr_total)

lemma decode_handle_pieces:
  assumes "peer_codec (pid_to_bytes L) (pid_from_bytes L) peer"
  shows "decode_mem_handle L (concat (handle_pieces L peer h) @ junk)
     = Some (Some (h\<lparr>mh_buf := null_ptr, mh_owner_peer_id := Some peer\<rparr>))"
proof -
  let ?peer = "pid_to_bytes L peer"
  let ?len = "to_be_bytes (of_nat (length ?peer) :: u16)"
  let ?a = "to_be_bytes (mh_handle_id h)" and ?b = "to_be_bytes (mh_buf_size h)"
  let ?c = "to_be_bytes (mh_flags h)"
  have data: "concat (handle_pieces L peer h) @ junk = ?a @ ?b @ ?c @ ?len @ ?peer @ junk"
    by (simp add: handle_pieces_def Let_def)
  have n: "unat (from_be_bytes ?len :: u16) = length ?peer"
    and pid: "pid_from_bytes L ?peer = Some peer"
    using assms by (simp_all add: peer_codec_def unat_u16_length)
  have "slice_range (?a @ ?b @ ?c @ ?len @ ?peer @ junk) 0 8 = Some ?a"
    "slice_range (?a @ ?b @ ?c @ ?len @ ?peer @ junk) 8 16 = Some ?b"
    "slice_range (?a @ ?b @ ?c @ ?len @ ?peer @ junk) 16 24 = Some ?c"
    "slice_range (?a @ ?b @ ?c @ ?len @ ?peer @ junk) 24 26 = Some ?len"
    "slice_range (?a @ ?b @ ?c @ ?len @ ?peer @ junk) 26 (26 + length ?peer) = Some ?peer"
    using slice_range_append [of "[]" ?a "?b @ ?c @ ?len @ ?peer @ junk"]
      slice_range_append [of ?a ?b "?c @ ?len @ ?peer @ junk"]
      slice_range_append [of "?a @ ?b" ?c "?len @ ?peer @ junk"]
      slice_range_append [of "?a @ ?b @ ?c" ?len "?peer @ junk"]
      slice_range_append [of "?a @ ?b @ ?c @ ?len" ?peer junk]
    by simp_all
  then show ?thesis
    unfolding data decode_mem_handle_def using n pid by (cases h) simp
qed

lemma decode_mem_handle_total: "26 \<le> length data \<Longrightarrow> decode_mem_handle L data \<noteq> None"
  by (auto simp: decode_mem_handle_def slice_range_def Let_def split: option.splits)

interpretation handle_form: buffer_codec "\<lambda>(peer, h). handle_pieces L peer h" "decode_mem_handle L"
  "\<lambda>(peer, h). h\<lparr>mh_buf := null_ptr, mh_owner_peer_id := Some peer\<rparr>"
  "\<lambda>(peer, h). peer_codec (pid_to_bytes L) (pid_from_bytes L) peer" 26
  for L :: "'pid libp2p"
  by unfold_locales (auto simp: decode_handle_pieces decode_mem_handle_total)

section \<open>Properties\<close>

text \<open>C20: an address serialized into a buffer that is at least as large as its reported size is
  deserialized from it, whatever bytes follow, as a fresh address with the same peer and
  multiaddr that is not marked as self.\<close>

theorem addr_serialize_roundtrip:
  assumes "addr \<noteq> null_ptr" and "addr_box w addr = Some a" and "buf \<noteq> null_ptr"
    and "serial_codec L a" and "region buf (unat buf_size) (memory w)"
    and "na_libp2p_addr_get_serialize_size L addr w = Some n" and "n \<le> unat buf_size"
  shows "\<exists>w1 w2. na_libp2p_addr_serialize L buf buf_size addr w = Some (NA_SUCCESS, w1) \<and>
     na_libp2p_addr_deserialize L False buf buf_size w1 = Some (NA_SUCCESS, Some (next_box w), w2) \<and>
     addr_box w2 = (addr_box w)(next_box w \<mapsto> a\<lparr>is_self := False\<rparr>)"
proof -
  have n: "n = length (concat (addr_pieces L a))"
    using assms(1,2,6) by (simp add: na_libp2p_addr_get_serialize_size_def addr_pieces_def Let_def)
  have "4 \<le> n" using n by (simp add: addr_pieces_def Let_def)
  with assms(7) have big: "\<not> buf_size < 4" by (simp add: word_less_nat_alt)
  from addr_form.write_then_decode [OF assms(4,5)] assms(7) n obtain m data where
    run: "write_pieces buf buf_size 0 (addr_pieces L a) w = Some (NA_SUCCESS, w\<lparr>memory := m\<rparr>)"
    and data: "load_bytes buf (unat buf_size) m = Some data"
      "decode_addr L data = Some (Some (peer_id a, multiaddr a))" by metis
  from run assms(1-3) have "na_libp2p_addr_serialize L buf buf_size addr w
      = Some (NA_SUCCESS, w\<lparr>memory := m\<rparr>)"
    by (simp add: na_libp2p_addr_serialize_def)
  moreover have "na_libp2p_addr_deserialize L False buf buf_size (w\<lparr>memory := m\<rparr>)
      = Some (NA_SUCCESS, Some (next_box w),
          snd (alloc_boxed (peer_id a) (multiaddr a) False (w\<lparr>memory := m\<rparr>)))"
    using data big assms(3)
    by (simp add: na_libp2p_addr_deserialize_def copy_from_def alloc_boxed_def alloc_addr_def Let_def)
  moreover have "addr_box (snd (alloc_boxed (peer_id a) (multiaddr a) False (w\<lparr>memory := m\<rparr>)))
      = (addr_box w)(next_box w \<mapsto> a\<lparr>is_self := False\<rparr>)"
    by (cases a) (simp add: alloc_boxed_def alloc_addr_def)
  ultimately show ?thesis by blast
qed

text \<open>Serializing an address stays inside the buffer: it succeeds exactly when the reported
  size fits, returns an overflow otherwise, and changes no byte outside the buffer and no
  other part of the state in either case.\<close>

lemma addr_serialize_bounds:
  assumes "addr \<noteq> null_ptr" and "addr_box w addr = Some a" and "buf \<noteq> null_ptr"
    and "region buf (unat buf_size) (memory w)"
    and "na_libp2p_addr_get_serialize_size L addr w = Some n"
  shows "\<exists>m. na_libp2p_addr_serialize L buf buf_size addr w =
       Some (if n \<le> unat buf_size then NA_SUCCESS else NA_OVERFLOW, w\<lparr>memory := m\<rparr>) \<and>
     (\<forall>q. q < buf \<or> buf + unat buf_size \<le> q \<longrightarrow> m q = memory w q)"
proof -
  have n: "n = length (concat (addr_pieces L a))"
    using assms(1,2,5) by (simp add: na_libp2p_addr_get_serialize_size_def addr_pieces_def Let_def)
  from write_pieces_spec [OF assms(4), of 0 "addr_pieces L a"] n assms(1-3) show ?thesis
    by (auto simp: na_libp2p_addr_serialize_def)
qed

text \<open>C21: a memory handle serialized into a buffer of at least its reported size is deserialized
  as a remote handle: the same identifier, size and flags, no local buffer, owned by the
  handle's owner or, for a local handle, by this peer.\<close>

theorem mem_handle_serialize_roundtrip:
  assumes "mem_handle \<noteq> null_ptr" and "mh_box w mem_handle = Some h" and "buf \<noteq> null_ptr"
    and "peer_codec (pid_to_bytes L) (pid_from_bytes L) (handle_peer h w)"
    and "region buf (unat buf_size) (memory w)"
    and "na_libp2p_mem_handle_get_serialize_size L mem_handle w = Some n" and "n \<le> unat buf_size"
  shows "\<exists>w1 w2. na_libp2p_mem_handle_serialize L buf buf_size mem_handle w = Some (NA_SUCCESS, w1) \<and>
     na_libp2p_mem_handle_deserialize L False buf buf_size w1
       = Some (NA_SUCCESS, Some (next_box w), w2) \<and>
     mh_box w2 = (mh_box w)(next_box w \<mapsto>
       h\<lparr>mh_buf := null_ptr, mh_owner_peer_id := Some (handle_peer h w)\<rparr>)"
proof -
  let ?x = "(handle_peer h w, h)"
  have n: "n = length (concat (handle_pieces L (handle_peer h w) h))"
    using assms(1,2,6)
    by (simp add: na_libp2p_mem_handle_get_serialize_size_def handle_pieces_def Let_def)
  have "26 \<le> n" using n by (simp add: handle_pieces_def Let_def)
  with assms(7) have big: "\<not> buf_size < 26" by (simp add: word_less_nat_alt)
  from handle_form.write_then_decode [of L ?x, OF _ assms(5)] assms(4,7) n obtain m data where
    run: "write_pieces buf buf_size 0 (handle_pieces L (handle_peer h w) h) w
        = Some (NA_SUCCESS, w\<lparr>memory := m\<rparr>)"
    and data: "load_bytes buf (unat buf_size) m = Some data"
      "decode_mem_handle L data
        = Some (Some (h\<lparr>mh_buf := null_ptr, mh_owner_peer_id := Some (handle_peer h w)\<rparr>))"
    by auto
  from run assms(1-3) have "na_libp2p_mem_handle_serialize L buf buf_size mem_handle w
      = Some (NA_SUCCESS, w\<lparr>memory := m\<rparr>)"
    by (simp add: na_libp2p_mem_handle_serialize_def)
  with data big assms(3) show ?thesis
    by (simp add: na_libp2p_mem_handle_deserialize_def copy_from_def alloc_mem_handle_def Let_def)
qed

text \<open>C22: deserializing from any allocated buffer is defined, whatever its bytes: no slice
  panics and no byte outside the buffer is read, for addresses and for memory handles, and
  the outcome is success, a protocol error or an invalid argument.\<close>

theorem deserialize_defined:
  assumes "region buf (unat buf_size) (memory w)"
  shows "(\<exists>ret out w'. na_libp2p_addr_deserialize L null_out buf buf_size w = Some (ret, out, w') \<and>
            ret \<in> {NA_SUCCESS, NA_PROTOCOL_ERROR, NA_INVALID_ARG} \<and> (ret = NA_SUCCESS \<longleftrightarrow> out \<noteq> None)) \<and>
         (\<exists>ret out w'. na_libp2p_mem_handle_deserialize L null_out buf buf_size w = Some (ret, out, w') \<and>
            ret \<in> {NA_SUCCESS, NA_PROTOCOL_ERROR, NA_INVALID_ARG} \<and> (ret = NA_SUCCESS \<longleftrightarrow> out \<noteq> None))"
proof -
  from mem.load_total [OF assms order_refl] obtain data where
    data: "load_bytes buf (unat buf_size) (memory w) = Some data" "length data = unat buf_size" by blast
  have "decode_mem_handle L data \<noteq> None" if "\<not> buf_size < 26"
    using that data(2) by (intro decode_mem_handle_total) (simp add: word_less_nat_alt)
  with data(1) decode_addr_total [of L data] show ?thesis
    by (auto simp: na_libp2p_addr_deserialize_def na_libp2p_mem_handle_deserialize_def copy_from_def
        alloc_boxed_def alloc_addr_def alloc_mem_handle_def Let_def split: option.splits)
qed

section \<open>Concrete runs\<close>

text \<open>A plugin state with an address, a local memory handle and a buffer of forty bytes.\<close>

definition serial_state :: "u8 na_state" where
  "serial_state = example_state\<lparr>addr_box := [5 \<mapsto> example_addr],
     mh_box := [6 \<mapsto> \<lparr>mh_buf = 64, mh_buf_size = 16, mh_handle_id = 3, mh_flags = 1,
                     mh_owner_peer_id = None\<rparr>],
     memory := (\<lambda>q. if 100 \<le> q \<and> q < 140 then Some 7 else None), next_box := 9\<rparr>"

lemma serial_state_simps [simp]:
  "addr_box serial_state = [5 \<mapsto> example_addr]"
  "mh_box serial_state = [6 \<mapsto> \<lparr>mh_buf = 64, mh_buf_size = 16, mh_handle_id = 3, mh_flags = 1,
                     mh_owner_peer_id = None\<rparr>]"
  "next_box serial_state = 9" "region 100 40 (memory serial_state)" "self_addr serial_state = example_addr"
  by (simp_all add: serial_state_def region_def)

lemma serial_codec_example [simp]: "serial_codec example_lib example_addr"
proof -
  have "utf8_valid (as_bytes ''/ip4/127.0.0.1/tcp/4001'')" by code_simp
  then show ?thesis by (simp add: serial_codec_def example_lib_def)
qed

lemma serial_sizes:
  "na_libp2p_addr_get_serialize_size example_lib 5 serial_state = Some 28"
  "na_libp2p_mem_handle_get_serialize_size example_lib 6 serial_state = Some 27"
  by code_simp+

theorem addr_serialize_roundtrip_witness:
  "\<exists>w1 w2. na_libp2p_addr_serialize example_lib 100 40 5 serial_state = Some (NA_SUCCESS, w1) \<and>
     na_libp2p_addr_deserialize example_lib False 100 40 w1 = Some (NA_SUCCESS, Some 9, w2) \<and>
     addr_box w2 = [5 \<mapsto> example_addr, 9 \<mapsto> example_addr\<lparr>is_self := False\<rparr>]"
  using addr_serialize_roundtrip [of 5 serial_state example_addr 100 example_lib 40 28]
  by (simp add: serial_sizes)

theorem mem_handle_serialize_roundtrip_witness:
  "\<exists>w1 w2. na_libp2p_mem_handle_serialize example_lib 100 40 6 serial_state = Some (NA_SUCCESS, w1) \<and>
     na_libp2p_mem_handle_deserialize example_lib False 100 40 w1 = Some (NA_SUCCESS, Some 9, w2) \<and>
     mh_box w2 9 = Some \<lparr>mh_buf = null_ptr, mh_buf_size = 16, mh_handle_id = 3, mh_flags = 1,
                         mh_owner_peer_id = Some 42\<rparr>"
proof -
  define h :: "u8 mem_handle" where
    "h = \<lparr>mh_buf = 64, mh_buf_size = 16, mh_handle_id = 3, mh_flags = 1, mh_owner_peer_id = None\<rparr>"
  have "peer_codec (pid_to_bytes example_lib) (pid_from_bytes example_lib) (handle_peer h serial_state)"
    by (simp add: example_lib_def)
  moreover have "handle_peer h serial_state = 42" by (simp add: handle_peer_def h_def)
  moreover have "mh_box serial_state 6 = Some h" by (simp add: h_def)
  ultimately obtain w1 w2 where
    "na_libp2p_mem_handle_serialize example_lib 100 40 6 serial_state = Some (NA_SUCCESS, w1)"
    "na_libp2p_mem_handle_deserialize example_lib False 100 40 w1 = Some (NA_SUCCESS, Some 9, w2)"
    "mh_box w2 9 = Some (h\<lparr>mh_buf := null_ptr, mh_owner_peer_id := Some 42\<rparr>)"
    using mem_handle_serialize_roundtrip [of 6 serial_state h 100 example_lib 40 27]
    by (auto simp del: serial_state_simps(2) simp add: serial_sizes)
  then show ?thesis by (auto simp: h_def)
qed

theorem deserialize_defined_witness:
  "(\<exists>ret out w'. na_libp2p_addr_deserialize example_lib False 100 40 serial_state = Some (ret, out, w') \<and>
      ret \<in> {NA_SUCCESS, NA_PROTOCOL_ERROR, NA_INVALID_ARG} \<and> (ret = NA_SUCCESS \<longleftrightarrow> out \<noteq> None)) \<and>
   (\<exists>ret out w'. na_libp2p_mem_handle_deserialize example_lib False 100 40 serial_state = Some (ret, out, w') \<and>
      ret \<in> {NA_SUCCESS, NA_PROTOCOL_ERROR, NA_INVALID_ARG} \<and> (ret = NA_SUCCESS \<longleftrightarrow> out \<noteq> None))"
  by (rule deserialize_defined) simp

end
