(* ===== verification/Matching.thy ===== *)
theory Matching
  imports Prelude
begin

text \<open>
  The contract of a receive queue, independent of the plugin's data: posted receives and
  stashed messages are matched first come, first served. A posted receive takes the oldest
  stashed message it matches, an arriving message goes to the oldest posted receive that
  matches it, and whatever finds no partner waits. The theorems here say what this means
  for whole histories; the interface \<open>matching_queue\<close> carries them to any implementation
  that refines the contract step by step.
\<close>

section \<open>The matching discipline\<close>

datatype ('o, 'm) match_event = Post 'o | Arrive 'm | Withdraw 'o

type_synonym ('o, 'm) match_state = "'o list \<times> 'm list"

fun match_step ::
  "('o \<Rightarrow> 'm \<Rightarrow> bool) \<Rightarrow> ('o, 'm) match_event \<Rightarrow> ('o, 'm) match_state
     \<Rightarrow> ('o \<times> 'm) option \<times> ('o, 'm) match_state" where
  "match_step M (Post p) (ps, ms) =
     (case position (M p) ms of
        None \<Rightarrow> (None, (ps @ [p], ms))
      | Some i \<Rightarrow> (Some (p, ms ! i), (ps, remove_at i ms)))"
| "match_step M (Arrive m) (ps, ms) =
     (case position (\<lambda>p. M p m) ps of
        None \<Rightarrow> (None, (ps, ms @ [m]))
      | Some i \<Rightarrow> (Some (ps ! i, m), (remove_at i ps, ms)))"
| "match_step M (Withdraw p) (ps, ms) = (None, (remove1 p ps, ms))"

text \<open>An optional element in front of a list, for steps without an event or a delivery.\<close>

fun opt_cons :: "'a option \<Rightarrow> 'a list \<Rightarrow> 'a list" where
  "opt_cons None xs = xs"
| "opt_cons (Some x) xs = x # xs"

fun match_run ::
  "('o \<Rightarrow> 'm \<Rightarrow> bool) \<Rightarrow> ('o, 'm) match_event list \<Rightarrow> ('o, 'm) match_state
     \<Rightarrow> ('o \<times> 'm) list \<times> ('o, 'm) match_state" where
  "match_run M [] s = ([], s)"
| "match_run M (e # es) s =
     (let (d, s1) = match_step M e s; (ds, s2) = match_run M es s1 in (opt_cons d ds, s2))"

fun posts :: "('o, 'm) match_event list \<Rightarrow> 'o list" where
  "posts [] = []"
| "posts (Post p # es) = p # posts es"
| "posts (_ # es) = posts es"

fun arrivals :: "('o, 'm) match_event list \<Rightarrow> 'm list" where
  "arrivals [] = []"
| "arrivals (Arrive m # es) = m # arrivals es"
| "arrivals (_ # es) = arrivals es"

section \<open>Nothing waits beside its partner\<close>

fun separated :: "('o \<Rightarrow> 'm \<Rightarrow> bool) \<Rightarrow> ('o, 'm) match_state \<Rightarrow> bool" where
  "separated M (ps, ms) \<longleftrightarrow> (\<forall>p\<in>set ps. \<forall>m\<in>set ms. \<not> M p m)"

lemma separated_step: "separated M s \<Longrightarrow> separated M (snd (match_step M e s))"
proof (cases s)
  case (Pair ps ms)
  assume sep: "separated M s"
  show ?thesis
  proof (cases e)
    case (Post p)
    show ?thesis
    proof (cases "position (M p) ms")
      case None
      then have "\<forall>m\<in>set ms. \<not> M p m" by (simp add: position_None_iff)
      with None sep Post Pair show ?thesis by auto
    next
      case (Some i)
      with sep Post Pair set_remove_at_subset [of i ms] show ?thesis by auto
    qed
  next
    case (Arrive m)
    show ?thesis
    proof (cases "position (\<lambda>p. M p m) ps")
      case None
      then have "\<forall>p\<in>set ps. \<not> M p m" by (simp add: position_None_iff)
      with None sep Arrive Pair show ?thesis by auto
    next
      case (Some i)
      with sep Arrive Pair set_remove_at_subset [of i ps] show ?thesis by auto
    qed
  next
    case (Withdraw p)
    with sep Pair set_remove1_subset [of p ps] show ?thesis by auto
  qed
qed

lemma match_step_delivery:
  assumes "match_step M e s = (Some (p, m), s')"
  shows "M p m"
  using assms
  by (cases s; cases e) (auto split: option.splits dest: position_SomeD)

section \<open>Order of delivery\<close>

text \<open>
  A class of messages that no receive tells apart: they are delivered in the order in which
  they arrived, and the ones that are still stashed are the last ones.
\<close>

definition alike :: "('a \<Rightarrow> bool) \<Rightarrow> ('a \<Rightarrow> 'b \<Rightarrow> bool) \<Rightarrow> bool" where
  "alike K R \<longleftrightarrow> (\<forall>x y z. K x \<and> K y \<longrightarrow> R x z = R y z)"

lemma alikeD: "alike K R \<Longrightarrow> K x \<Longrightarrow> K y \<Longrightarrow> R x z \<longleftrightarrow> R y z"
  unfolding alike_def by blast

text \<open>Taking the first match leaves the order within a class alone.\<close>

lemma filter_remove_first:
  assumes "position P xs = Some i" and "\<And>x y. K x \<Longrightarrow> K y \<Longrightarrow> P x \<longleftrightarrow> P y"
  shows "filter K xs = (if K (xs ! i) then [xs ! i] else []) @ filter K (remove_at i xs)"
proof -
  from position_split [OF assms(1)] obtain ys y zs
    where xs: "xs = ys @ y # zs" "length ys = i" "P y" "\<forall>x\<in>set ys. \<not> P x" .
  show ?thesis
  proof (cases "K y")
    case True
    with assms(2) xs(3,4) have "\<forall>x\<in>set ys. \<not> K x" by blast
    then have "filter K ys = []" by simp
    with xs True show ?thesis by (simp add: xs(2) [symmetric])
  next
    case False
    with xs show ?thesis by (simp add: xs(2) [symmetric])
  qed
qed

lemma match_step_arrivals:
  assumes "separated M s" and "match_step M e s = (d, s')" and "alike K (\<lambda>m p. M p m)"
  shows "filter K (snd s) @ filter K (arrivals [e])
       = filter K (map snd (opt_cons d [])) @ filter K (snd s')"
proof (cases s)
  case (Pair ps ms)
  have K: "K x \<Longrightarrow> K y \<Longrightarrow> M p x \<longleftrightarrow> M p y" for x y p using alikeD [OF assms(3)] by blast
  show ?thesis
  proof (cases e)
    case (Post p)
    show ?thesis
    proof (cases "position (M p) ms")
      case None
      with assms(2) Post Pair show ?thesis by auto
    next
      case (Some i)
      from filter_remove_first [where K = K, OF Some K] Some assms(2) Post Pair
      show ?thesis by (cases "K (ms ! i)") auto
    qed
  next
    case (Arrive m)
    show ?thesis
    proof (cases "position (\<lambda>p. M p m) ps")
      case None
      with assms(2) Arrive Pair show ?thesis by auto
    next
      case (Some i)
      have "filter K ms = []" if "K m"
      proof -
        from position_SomeD [OF Some] have "ps ! i \<in> set ps" "M (ps ! i) m" by auto
        with assms(1) Pair K [OF that] show ?thesis by (auto simp: filter_empty_conv)
      qed
      with Some assms(2) Arrive Pair show ?thesis by auto
    qed
  next
    case (Withdraw p)
    with assms(2) Pair show ?thesis by auto
  qed
qed

lemma match_step_posts:
  assumes "separated M s" and "match_step M e s = (d, s')" and "alike K M"
    and "\<And>p. e = Withdraw p \<Longrightarrow> \<not> K p"
  shows "filter K (fst s) @ filter K (posts [e])
       = filter K (map fst (opt_cons d [])) @ filter K (fst s')"
proof (cases s)
  case (Pair ps ms)
  have K: "K x \<Longrightarrow> K y \<Longrightarrow> M x m \<longleftrightarrow> M y m" for x y m using alikeD [OF assms(3)] by blast
  show ?thesis
  proof (cases e)
    case (Post p)
    show ?thesis
    proof (cases "position (M p) ms")
      case None
      with assms(2) Post Pair show ?thesis by auto
    next
      case (Some i)
      have "filter K ps = []" if "K p"
      proof -
        from position_SomeD [OF Some] have "ms ! i \<in> set ms" "M p (ms ! i)" by auto
        with assms(1) Pair K [OF that] show ?thesis by (auto simp: filter_empty_conv)
      qed
      with Some assms(2) Post Pair show ?thesis by auto
    qed
  next
    case (Arrive m)
    show ?thesis
    proof (cases "position (\<lambda>p. M p m) ps")
      case None
      with assms(2) Arrive Pair show ?thesis by auto
    next
      case (Some i)
      from filter_remove_first [where K = K, OF Some K] Some assms(2) Arrive Pair
      show ?thesis by (cases "K (ps ! i)") auto
    qed
  next
    case (Withdraw p)
    with assms(4) have "\<not> K p" by blast
    then have "filter K (remove1 p ps) = filter K ps" by (induction ps) auto
    with assms(2) Withdraw Pair show ?thesis by auto
  qed
qed

lemma arrivals_Cons: "arrivals (e # es) = arrivals [e] @ arrivals es"
  by (cases e) simp_all

lemma posts_Cons: "posts (e # es) = posts [e] @ posts es"
  by (cases e) simp_all

lemma map_opt_cons: "map f (opt_cons d ds) = map f (opt_cons d []) @ map f ds"
  by (cases d) simp_all

lemma match_run_ConsE:
  assumes "match_run M (e # es) s = (ds, s2)"
  obtains d s1 ds' where "match_step M e s = (d, s1)" "match_run M es s1 = (ds', s2)"
    "ds = opt_cons d ds'"
  using assms by (auto simp: Let_def split: prod.splits)

theorem match_run_separated:
  "separated M s \<Longrightarrow> match_run M es s = (ds, s') \<Longrightarrow> separated M s'"
proof (induction es arbitrary: s ds)
  case Nil
  then show ?case by simp
next
  case (Cons e es)
  from Cons.prems(2) obtain d s1 ds' where
    "match_step M e s = (d, s1)" "match_run M es s1 = (ds', s')" by (rule match_run_ConsE)
  with Cons.IH separated_step [OF Cons.prems(1), of e] show ?case by simp
qed

theorem match_run_arrivals:
  assumes "alike K (\<lambda>m p. M p m)"
  shows "separated M s \<Longrightarrow> match_run M es s = (ds, s') \<Longrightarrow>
    filter K (snd s) @ filter K (arrivals es) = filter K (map snd ds) @ filter K (snd s')"
proof (induction es arbitrary: s ds)
  case Nil
  then show ?case by simp
next
  case (Cons e es)
  from Cons.prems(2) obtain d s1 ds' where step: "match_step M e s = (d, s1)"
    and rest: "match_run M es s1 = (ds', s')" and ds: "ds = opt_cons d ds'"
    by (rule match_run_ConsE)
  have sep: "separated M s1" using separated_step [OF Cons.prems(1), of e] step by simp
  have "filter K (snd s) @ filter K (arrivals (e # es))
      = (filter K (snd s) @ filter K (arrivals [e])) @ filter K (arrivals es)"
    by (subst arrivals_Cons) simp
  also have "\<dots> = filter K (map snd (opt_cons d [])) @ filter K (snd s1) @ filter K (arrivals es)"
    by (simp only: match_step_arrivals [OF Cons.prems(1) step assms] append_assoc)
  also have "filter K (snd s1) @ filter K (arrivals es) = filter K (map snd ds') @ filter K (snd s')"
    by (rule Cons.IH [OF sep rest])
  finally show ?case unfolding ds by (subst map_opt_cons) simp
qed

theorem match_run_posts:
  assumes "alike K M"
  shows "separated M s \<Longrightarrow> match_run M es s = (ds, s') \<Longrightarrow> \<forall>p. Withdraw p \<in> set es \<longrightarrow> \<not> K p \<Longrightarrow>
    filter K (fst s) @ filter K (posts es) = filter K (map fst ds) @ filter K (fst s')"
proof (induction es arbitrary: s ds)
  case Nil
  then show ?case by simp
next
  case (Cons e es)
  from Cons.prems(2) obtain d s1 ds' where step: "match_step M e s = (d, s1)"
    and rest: "match_run M es s1 = (ds', s')" and ds: "ds = opt_cons d ds'"
    by (rule match_run_ConsE)
  have sep: "separated M s1" using separated_step [OF Cons.prems(1), of e] step by simp
  have nw: "\<not> K p" if "e = Withdraw p" for p using Cons.prems(3) that by simp
  have "filter K (fst s) @ filter K (posts (e # es))
      = (filter K (fst s) @ filter K (posts [e])) @ filter K (posts es)"
    by (subst posts_Cons) simp
  also have "\<dots> = filter K (map fst (opt_cons d [])) @ filter K (fst s1) @ filter K (posts es)"
    by (simp only: match_step_posts [OF Cons.prems(1) step assms nw] append_assoc)
  also have "filter K (fst s1) @ filter K (posts es) = filter K (map fst ds') @ filter K (fst s')"
    by (rule Cons.IH [OF sep rest]) (use Cons.prems(3) in simp)
  finally show ?case unfolding ds by (subst map_opt_cons) simp
qed

text \<open>Every delivery of a run is of a message to a receive that matches it.\<close>

theorem match_run_deliveries:
  "match_run M es s = (ds, s') \<Longrightarrow> (p, m) \<in> set ds \<Longrightarrow> M p m"
proof (induction es arbitrary: s ds)
  case Nil
  then show ?case by simp
next
  case (Cons e es)
  from Cons.prems(1) obtain d s1 ds' where step: "match_step M e s = (d, s1)"
    and rest: "match_run M es s1 = (ds', s')" and ds: "ds = opt_cons d ds'"
    by (rule match_run_ConsE)
  from Cons.prems(2) ds have "d = Some (p, m) \<or> (p, m) \<in> set ds'" by (cases d) auto
  then show ?case
  proof
    assume "d = Some (p, m)"
    with step match_step_delivery [of M e s p m s1] show ?thesis by simp
  next
    assume "(p, m) \<in> set ds'"
    with Cons.IH [OF rest] show ?thesis by simp
  qed
qed

section \<open>The interface of an implementation\<close>

text \<open>Histories of an implementation, whose steps may have an event and a delivery.\<close>

inductive run_of ::
  "('w \<Rightarrow> 'e option \<Rightarrow> 'd option \<Rightarrow> 'w \<Rightarrow> bool) \<Rightarrow> 'w \<Rightarrow> 'e list \<Rightarrow> 'd list \<Rightarrow> 'w \<Rightarrow> bool"
  for stp :: "'w \<Rightarrow> 'e option \<Rightarrow> 'd option \<Rightarrow> 'w \<Rightarrow> bool" where
  run_done: "run_of stp w [] [] w"
| run_more: "stp w e d w1 \<Longrightarrow> run_of stp w1 es ds w2 \<Longrightarrow>
     run_of stp w (opt_cons e es) (opt_cons d ds) w2"

text \<open>
  An implementation of the matching discipline: an abstraction of its states and steps that
  act on the abstraction as the discipline says, or leave it alone.
\<close>

locale matching_queue =
  fixes abs :: "'w \<Rightarrow> ('o, 'm) match_state"
    and M :: "'o \<Rightarrow> 'm \<Rightarrow> bool"
    and stp :: "'w \<Rightarrow> ('o, 'm) match_event option \<Rightarrow> ('o \<times> 'm) option \<Rightarrow> 'w \<Rightarrow> bool"
    and ok :: "'w \<Rightarrow> bool"
  assumes step_event: "ok w \<Longrightarrow> stp w (Some e) d w' \<Longrightarrow> match_step M e (abs w) = (d, abs w')"
    and step_silent: "ok w \<Longrightarrow> stp w None d w' \<Longrightarrow> d = None \<and> abs w' = abs w"
    and step_ok: "ok w \<Longrightarrow> stp w oe d w' \<Longrightarrow> ok w'"
begin

lemma run_refines:
  assumes "run_of stp w es ds w'" and "ok w"
  shows "match_run M es (abs w) = (ds, abs w') \<and> ok w'"
  using assms
proof (induction rule: run_of.induct)
  case (run_done w)
  then show ?case by simp
next
  case (run_more w e d w1 es ds w2)
  from step_ok [OF run_more.prems run_more.hyps(1)] run_more.IH
  have rest: "match_run M es (abs w1) = (ds, abs w2)" "ok w2" by auto
  show ?case
  proof (cases e)
    case None
    with step_silent [OF run_more.prems] run_more.hyps(1) have "d = None" "abs w1 = abs w" by blast+
    with None rest show ?thesis by simp
  next
    case (Some ev)
    with step_event [OF run_more.prems] run_more.hyps(1)
    have "match_step M ev (abs w) = (d, abs w1)" by blast
    with Some rest show ?thesis by (simp add: Let_def)
  qed
qed

lemma run_separated:
  assumes "run_of stp w es ds w'" and "ok w" and "separated M (abs w)"
  shows "separated M (abs w')"
  using match_run_separated [OF assms(3)] run_refines [OF assms(1,2)] by blast

lemma run_messages_in_order:
  assumes "run_of stp w es ds w'" and "ok w" and "separated M (abs w)" and "alike K (\<lambda>m p. M p m)"
  shows "filter K (snd (abs w)) @ filter K (arrivals es)
       = filter K (map snd ds) @ filter K (snd (abs w'))"
  using match_run_arrivals [OF assms(4,3)] run_refines [OF assms(1,2)] by blast

lemma run_receives_in_order:
  assumes "run_of stp w es ds w'" and "ok w" and "separated M (abs w)" and "alike K M"
    and "\<forall>p. Withdraw p \<in> set es \<longrightarrow> \<not> K p"
  shows "filter K (fst (abs w)) @ filter K (posts es)
       = filter K (map fst ds) @ filter K (fst (abs w'))"
  using match_run_posts [OF assms(4,3)] run_refines [OF assms(1,2)] assms(5) by blast

lemma run_deliveries_match:
  assumes "run_of stp w es ds w'" and "ok w" and "(p, m) \<in> set ds"
  shows "M p m"
proof -
  from run_refines [OF assms(1,2)] have "match_run M es (abs w) = (ds, abs w')" by simp
  then show ?thesis using assms(3) by (rule match_run_deliveries)
qed

end

end
