(* ===== verification/Messaging.thy ===== *)
theory Messaging
  imports Plugin_State Matching
begin

text \<open>
  Two-sided messages (\<^verbatim>\<open>src/src/plugin.rs\<close>, \<^verbatim>\<open>src/src/runtime.rs\<close>): posting sends and receives,
  the delivery of incoming messages by the runtime, cancellation and progress. The two
  receive queues refine the contract of \<^verbatim>\<open>Matching\<close>.
\<close>

section \<open>Sending\<close>

text \<open>The payload of a send: the client's bytes, read at the time of the call.\<close>

definition message_payload :: "ptr \<Rightarrow> usize \<Rightarrow> 'pid na_state \<Rightarrow> bytes option" where
  "message_payload buf buf_size w =
     (if buf_size > 0 \<and> buf \<noteq> null_ptr then copy_from buf (unat buf_size) w else Some [])"

definition na_libp2p_msg_send_unexpected ::
  "ptr \<Rightarrow> nat \<Rightarrow> ptr \<Rightarrow> ptr \<Rightarrow> usize \<Rightarrow> ptr \<Rightarrow> u32 \<Rightarrow> ptr \<Rightarrow> 'pid na_state
     \<Rightarrow> (na_return \<times> 'pid na_state) option" where
  "na_libp2p_msg_send_unexpected context callback arg buf buf_size dest_addr msg_tag op_id w = do {
     dest \<leftarrow> addr_box w dest_addr;
     op \<leftarrow> op_box w op_id;
     let op = op\<lparr>op_callback := callback, op_arg := arg, op_type := Some CB_SEND_UNEXPECTED,
                 op_context := context, op_tag := msg_tag\<rparr>;
     payload \<leftarrow> message_payload buf buf_size w;
     Some (NA_SUCCESS,
       send_cmd (SendMessage (peer_id dest) Unexpected msg_tag payload op_id (peer_id (self_addr w)))
         (put_op op_id op w))
   }"

definition na_libp2p_msg_send_expected ::
  "ptr \<Rightarrow> nat \<Rightarrow> ptr \<Rightarrow> ptr \<Rightarrow> usize \<Rightarrow> ptr \<Rightarrow> u32 \<Rightarrow> ptr \<Rightarrow> 'pid na_state
     \<Rightarrow> (na_return \<times> 'pid na_state) option" where
  "na_libp2p_msg_send_expected context callback arg buf buf_size dest_addr msg_tag op_id w = do {
     dest \<leftarrow> addr_box w dest_addr;
     op \<leftarrow> op_box w op_id;
     let op = op\<lparr>op_callback := callback, op_arg := arg, op_type := Some CB_SEND_EXPECTED,
                 op_context := context, op_tag := msg_tag\<rparr>;
     payload \<leftarrow> message_payload buf buf_size w;
     Some (NA_SUCCESS,
       send_cmd (SendMessage (peer_id dest) Expected msg_tag payload op_id (peer_id (self_addr w)))
         (put_op op_id op w))
   }"

section \<open>Receiving\<close>

text \<open>
  The copy of a payload into a receive buffer: as many bytes as fit, none for a null buffer.
\<close>

definition copy_payload :: "ptr \<Rightarrow> usize \<Rightarrow> bytes \<Rightarrow> 'pid na_state \<Rightarrow> 'pid na_state option" where
  "copy_payload buf buf_size payload w =
     (let copy_size = min (length payload) (unat buf_size) in
      if copy_size > 0 \<and> buf \<noteq> null_ptr then copy_to buf (take copy_size payload) w else Some w)"

definition na_libp2p_msg_recv_unexpected ::
  "ptr \<Rightarrow> nat \<Rightarrow> ptr \<Rightarrow> ptr \<Rightarrow> usize \<Rightarrow> ptr \<Rightarrow> 'pid na_state \<Rightarrow> (na_return \<times> 'pid na_state) option" where
  "na_libp2p_msg_recv_unexpected context callback arg buf buf_size op_id w = do {
     op \<leftarrow> op_box w op_id;
     let op = op\<lparr>op_callback := callback, op_arg := arg, op_type := Some CB_RECV_UNEXPECTED,
                 op_context := context, op_buf := buf, op_buf_size := buf_size, op_addr := null_ptr\<rparr>;
     let w = put_op op_id op w;
     case unexpected_msg_stash (queues w) of
       stashed # rest \<Rightarrow> do {
         let w = w\<lparr>queues := (queues w)\<lparr>unexpected_msg_stash := rest\<rparr>\<rparr>;
         w \<leftarrow> copy_payload buf buf_size (sm_payload stashed) w;
         let op = op\<lparr>op_info := RecvUnexpectedInfo (length (sm_payload stashed)) (sm_source_addr stashed)
                                  (sm_tag stashed),
                     op_ret := Some NA_SUCCESS\<rparr>;
         Some (NA_SUCCESS, na_cb_completion_add context op_id (put_op op_id op w))
       }
     | [] \<Rightarrow>
         Some (NA_SUCCESS,
           w\<lparr>queues := (queues w)\<lparr>unexpected_recv_ops := unexpected_recv_ops (queues w) @ [op_id]\<rparr>\<rparr>)
   }"

text \<open>The closure that looks for a stashed message of a tag and, if one is given, a source.\<close>

definition stash_match ::
  "u32 \<Rightarrow> 'pid option \<Rightarrow> 'pid na_state \<Rightarrow> stashed_message \<Rightarrow> bool option" where
  "stash_match msg_tag source_pid w msg = do {
     let tag_match = sm_tag msg = msg_tag;
     addr_match \<leftarrow>
       (case source_pid of
          Some pid \<Rightarrow>
            if sm_source_addr msg = null_ptr then Some True
            else do {
              a \<leftarrow> addr_box w (sm_source_addr msg);
              Some (peer_id a = pid)
            }
        | None \<Rightarrow> Some True);
     Some (tag_match \<and> addr_match)
   }"

definition na_libp2p_msg_recv_expected ::
  "ptr \<Rightarrow> nat \<Rightarrow> ptr \<Rightarrow> ptr \<Rightarrow> usize \<Rightarrow> ptr \<Rightarrow> u32 \<Rightarrow> ptr \<Rightarrow> 'pid na_state
     \<Rightarrow> (na_return \<times> 'pid na_state) option" where
  "na_libp2p_msg_recv_expected context callback arg buf buf_size source_addr msg_tag op_id w = do {
     op \<leftarrow> op_box w op_id;
     let op = op\<lparr>op_callback := callback, op_arg := arg, op_type := Some CB_RECV_EXPECTED,
                 op_context := context, op_buf := buf, op_buf_size := buf_size, op_tag := msg_tag,
                 op_addr := source_addr\<rparr>;
     let w = put_op op_id op w;
     source_pid \<leftarrow>
       (if source_addr \<noteq> null_ptr then do {
          a \<leftarrow> addr_box w source_addr;
          Some (Some (peer_id a))
        } else Some None);
     matched_idx \<leftarrow> position_m (stash_match msg_tag source_pid w) (expected_msg_stash (queues w));
     case matched_idx of
       Some idx \<Rightarrow> do {
         let stashed = expected_msg_stash (queues w) ! idx;
         let w = w\<lparr>queues := (queues w)\<lparr>expected_msg_stash := remove_at idx (expected_msg_stash (queues w))\<rparr>\<rparr>;
         w \<leftarrow> copy_payload buf buf_size (sm_payload stashed) w;
         w \<leftarrow> (if sm_source_addr stashed \<noteq> null_ptr then free_addr (sm_source_addr stashed) w else Some w);
         let op = op\<lparr>op_info := RecvExpectedInfo (length (sm_payload stashed)), op_ret := Some NA_SUCCESS\<rparr>;
         Some (NA_SUCCESS, na_cb_completion_add context op_id (put_op op_id op w))
       }
     | None \<Rightarrow>
         Some (NA_SUCCESS,
           w\<lparr>queues := (queues w)\<lparr>expected_recv_ops := expected_recv_ops (queues w) @ [op_id]\<rparr>\<rparr>)
   }"

section \<open>Incoming messages\<close>

text \<open>The closure that looks for a posted receive that an incoming message matches.\<close>

definition op_match :: "'pid wire_header \<Rightarrow> 'pid na_state \<Rightarrow> ptr \<Rightarrow> bool option" where
  "op_match header w op_ptr = do {
     op \<leftarrow> op_box w op_ptr;
     let tag_match = op_tag op = tag header;
     addr_match \<leftarrow>
       (if op_addr op = null_ptr then Some True
        else do {
          a \<leftarrow> addr_box w (op_addr op);
          Some (peer_id a = source_peer_id header)
        });
     Some (tag_match \<and> addr_match)
   }"

definition ops_queue :: "bool \<Rightarrow> operation_queues \<Rightarrow> ptr list" where
  "ops_queue expected q = (if expected then expected_recv_ops q else unexpected_recv_ops q)"

definition set_ops_queue :: "bool \<Rightarrow> ptr list \<Rightarrow> operation_queues \<Rightarrow> operation_queues" where
  "set_ops_queue expected ps q =
     (if expected then q\<lparr>expected_recv_ops := ps\<rparr> else q\<lparr>unexpected_recv_ops := ps\<rparr>)"

definition push_stash :: "bool \<Rightarrow> stashed_message \<Rightarrow> operation_queues \<Rightarrow> operation_queues" where
  "push_stash expected m q =
     (if expected then q\<lparr>expected_msg_stash := expected_msg_stash q @ [m]\<rparr>
      else q\<lparr>unexpected_msg_stash := unexpected_msg_stash q @ [m]\<rparr>)"

definition matched_recv :: "'pid wire_header \<Rightarrow> bool \<Rightarrow> 'pid na_state \<Rightarrow> nat option option" where
  "matched_recv header expected w =
     (let ops = ops_queue expected (queues w) in
      if expected then position_m (op_match header w) ops
      else Some (if ops = [] then None else Some 0))"

definition handle_incoming_msg ::
  "'pid wire_header \<Rightarrow> bytes \<Rightarrow> bool \<Rightarrow> 'pid na_state \<Rightarrow> 'pid na_state option" where
  "handle_incoming_msg header payload expected w = do {
     let (source_addr, w) = alloc_boxed (source_peer_id header) None False w;
     matched_idx \<leftarrow> matched_recv header expected w;
     let ops = ops_queue expected (queues w);
     case matched_idx of
       Some idx \<Rightarrow> do {
         let op_ptr = ops ! idx;
         let w = w\<lparr>queues := set_ops_queue expected (remove_at idx ops) (queues w)\<rparr>;
         op \<leftarrow> op_box w op_ptr;
         w \<leftarrow> copy_payload (op_buf op) (op_buf_size op) payload w;
         let recv_info = \<lparr>ri_actual_size = length payload, ri_source_addr = source_addr, ri_tag = tag header\<rparr>;
         Some (send_completion \<lparr>ci_op_ptr = op_ptr, ci_result = NA_SUCCESS, ci_recv_info = Some recv_info\<rparr> w)
       }
     | None \<Rightarrow>
         Some (w\<lparr>queues := push_stash expected
           \<lparr>sm_payload = payload, sm_source_addr = source_addr, sm_tag = tag header\<rparr> (queues w)\<rparr>)
   }"

section \<open>Progress and cancellation\<close>

definition na_libp2p_poll_try_wait :: "'pid na_state \<Rightarrow> bool" where
  "na_libp2p_poll_try_wait w \<longleftrightarrow> completion_rx w = []"

text \<open>One turn of the loop of \<^verbatim>\<open>na_libp2p_poll\<close>, on a completion taken from the channel.\<close>

definition poll_one :: "completion_item \<Rightarrow> 'pid na_state \<Rightarrow> 'pid na_state option" where
  "poll_one c w = do {
     let op = ci_op_ptr c;
     op_ref \<leftarrow> op_box w op;
     let op_ref = op_ref\<lparr>op_ret := Some (ci_result c)\<rparr>;
     (op_ref, w) \<leftarrow>
       (case ci_recv_info c of
          None \<Rightarrow> Some (op_ref, w)
        | Some recv_info \<Rightarrow>
            if op_type op_ref = Some CB_RECV_UNEXPECTED then
              Some (op_ref\<lparr>op_info := RecvUnexpectedInfo (ri_actual_size recv_info)
                                      (ri_source_addr recv_info) (ri_tag recv_info)\<rparr>, w)
            else if op_type op_ref = Some CB_RECV_EXPECTED then do {
              let op_ref = op_ref\<lparr>op_info := RecvExpectedInfo (ri_actual_size recv_info)\<rparr>;
              w \<leftarrow> (if ri_source_addr recv_info \<noteq> null_ptr then free_addr (ri_source_addr recv_info) w
                    else Some w);
              Some (op_ref, w)
            }
            else do {
              w \<leftarrow> (if ri_source_addr recv_info \<noteq> null_ptr then free_addr (ri_source_addr recv_info) w
                    else Some w);
              Some (op_ref, w)
            });
     Some (na_cb_completion_add (op_context op_ref) op (put_op op op_ref w))
   }"

text \<open>The loop itself: it ends when the channel is empty.\<close>

fun poll_loop :: "completion_item list \<Rightarrow> u32 \<Rightarrow> 'pid na_state \<Rightarrow> (u32 \<times> 'pid na_state) option" where
  "poll_loop [] count w = Some (count, w)"
| "poll_loop (c # cs) count w = do {
     w \<leftarrow> poll_one c (w\<lparr>completion_rx := cs\<rparr>);
     poll_loop cs (count + 1) w
   }"

definition na_libp2p_poll :: "'pid na_state \<Rightarrow> (na_return \<times> u32 \<times> 'pid na_state) option" where
  "na_libp2p_poll w = do {
     let w = drain_eventfd w;
     (count, w) \<leftarrow> poll_loop (completion_rx w) 0 w;
     Some (NA_SUCCESS, count, w)
   }"

text \<open>Cancelling an operation that one of the queues holds completes it at once.\<close>

definition complete_canceled :: "ptr \<Rightarrow> ptr \<Rightarrow> 'pid na_state \<Rightarrow> 'pid na_state option" where
  "complete_canceled context op_ptr w = do {
     op \<leftarrow> op_box w op_ptr;
     Some (na_cb_completion_add context op_ptr (put_op op_ptr (op\<lparr>op_ret := Some NA_CANCELED\<rparr>) w))
   }"

definition na_libp2p_cancel :: "ptr \<Rightarrow> ptr \<Rightarrow> 'pid na_state \<Rightarrow> (na_return \<times> 'pid na_state) option" where
  "na_libp2p_cancel context op_ptr w =
     (let q = queues w in
      case position (\<lambda>p. p = op_ptr) (unexpected_recv_ops q) of
        Some pos \<Rightarrow> do {
          w \<leftarrow> complete_canceled context op_ptr
                 (w\<lparr>queues := q\<lparr>unexpected_recv_ops := remove_at pos (unexpected_recv_ops q)\<rparr>\<rparr>);
          Some (NA_SUCCESS, w)
        }
      | None \<Rightarrow>
        case position (\<lambda>p. p = op_ptr) (expected_recv_ops q) of
          Some pos \<Rightarrow> do {
            w \<leftarrow> complete_canceled context op_ptr
                   (w\<lparr>queues := q\<lparr>expected_recv_ops := remove_at pos (expected_recv_ops q)\<rparr>\<rparr>);
            Some (NA_SUCCESS, w)
          }
        | None \<Rightarrow>
          case position (\<lambda>p. p = op_ptr) (pending_rma_ops q) of
            Some pos \<Rightarrow> do {
              w \<leftarrow> complete_canceled context op_ptr
                     (w\<lparr>queues := q\<lparr>pending_rma_ops := remove_at pos (pending_rma_ops q)\<rparr>\<rparr>);
              Some (NA_SUCCESS, w)
            }
          | None \<Rightarrow> Some (NA_SUCCESS, w))"

section \<open>Well-formed queues\<close>

text \<open>
  A client buffer is null or allocated. A posted receive is a live operation of its type
  whose buffer and source filter are in place; a stashed message has a live source address.
\<close>

definition buffer_ok :: "ptr \<Rightarrow> usize \<Rightarrow> 'pid na_state \<Rightarrow> bool" where
  "buffer_ok buf n w \<longleftrightarrow> (buf \<noteq> null_ptr \<longrightarrow> region buf (unat n) (memory w))"

definition posted_ok :: "cb_type \<Rightarrow> 'pid na_state \<Rightarrow> ptr \<Rightarrow> bool" where
  "posted_ok t w p \<longleftrightarrow>
     (case op_box w p of
        None \<Rightarrow> False
      | Some op \<Rightarrow> op_type op = Some t \<and> buffer_ok (op_buf op) (op_buf_size op) w \<and>
          (op_addr op = null_ptr \<or> addr_box w (op_addr op) \<noteq> None))"

definition stashed_ok :: "'pid na_state \<Rightarrow> stashed_message \<Rightarrow> bool" where
  "stashed_ok w m \<longleftrightarrow> sm_source_addr m \<noteq> null_ptr \<and> addr_box w (sm_source_addr m) \<noteq> None"

definition stash_addrs :: "'pid na_state \<Rightarrow> ptr list" where
  "stash_addrs w =
     map sm_source_addr (unexpected_msg_stash (queues w) @ expected_msg_stash (queues w))"

text \<open>Stashed messages own their source addresses: no two share one and no receive filters on one.\<close>

definition queues_ok :: "'pid na_state \<Rightarrow> bool" where
  "queues_ok w \<longleftrightarrow>
     (\<forall>p\<in>set (unexpected_recv_ops (queues w)). posted_ok CB_RECV_UNEXPECTED w p) \<and>
     (\<forall>p\<in>set (expected_recv_ops (queues w)). posted_ok CB_RECV_EXPECTED w p) \<and>
     (\<forall>m\<in>set (unexpected_msg_stash (queues w)). stashed_ok w m) \<and>
     (\<forall>m\<in>set (expected_msg_stash (queues w)). stashed_ok w m) \<and>
     distinct (stash_addrs w) \<and>
     (\<forall>p\<in>set (expected_recv_ops (queues w)). op_addr (the (op_box w p)) \<notin> set (stash_addrs w))"

section \<open>What the operations do\<close>

text \<open>The bytes of a payload that reach a receive buffer.\<close>

definition received_bytes :: "ptr \<Rightarrow> usize \<Rightarrow> bytes \<Rightarrow> bytes" where
  "received_bytes buf n payload = (if buf = null_ptr then [] else take (unat n) payload)"

lemma copy_payload_eq:
  assumes "buffer_ok buf n w"
  shows "copy_payload buf n payload w
       = Some (w\<lparr>memory := overwrite buf (received_bytes buf n payload) (memory w)\<rparr>)"
proof (cases "buf = null_ptr \<or> take (unat n) payload = []")
  case True
  then show ?thesis by (cases w) (auto simp: copy_payload_def received_bytes_def)
next
  case False
  have "region buf (length (take (unat n) payload)) (memory w)"
    using assms False by (auto simp: buffer_ok_def intro: mem.valid_mono)
  moreover have "take (min (length payload) (unat n)) payload = take (unat n) payload"
    by (simp add: min_def)
  ultimately show ?thesis using False
    by (auto simp: copy_payload_def copy_to_def received_bytes_def store_bytes_overwrite Let_def)
qed

text \<open>The operation fields that posting a receive sets.\<close>

definition unexpected_op :: "ptr \<Rightarrow> nat \<Rightarrow> ptr \<Rightarrow> ptr \<Rightarrow> usize \<Rightarrow> op_id \<Rightarrow> op_id" where
  "unexpected_op context callback arg buf n op =
     op\<lparr>op_callback := callback, op_arg := arg, op_type := Some CB_RECV_UNEXPECTED,
        op_context := context, op_buf := buf, op_buf_size := n, op_addr := null_ptr\<rparr>"

definition expected_op ::
  "ptr \<Rightarrow> nat \<Rightarrow> ptr \<Rightarrow> ptr \<Rightarrow> usize \<Rightarrow> ptr \<Rightarrow> u32 \<Rightarrow> op_id \<Rightarrow> op_id" where
  "expected_op context callback arg buf n source t op =
     op\<lparr>op_callback := callback, op_arg := arg, op_type := Some CB_RECV_EXPECTED,
        op_context := context, op_buf := buf, op_buf_size := n, op_tag := t, op_addr := source\<rparr>"

lemma recv_unexpected_eq:
  assumes "op_box w p = Some op" and "buffer_ok buf n w"
  shows "na_libp2p_msg_recv_unexpected c cb a buf n p w = Some (NA_SUCCESS,
     (let op' = unexpected_op c cb a buf n op; q = queues w in
      case unexpected_msg_stash q of
        [] \<Rightarrow> w\<lparr>op_box := (op_box w)(p \<mapsto> op'),
               queues := q\<lparr>unexpected_recv_ops := unexpected_recv_ops q @ [p]\<rparr>\<rparr>
      | s # rest \<Rightarrow>
          w\<lparr>op_box := (op_box w)(p \<mapsto> op'\<lparr>op_info := RecvUnexpectedInfo (length (sm_payload s))
                                             (sm_source_addr s) (sm_tag s),
                                     op_ret := Some NA_SUCCESS\<rparr>),
            queues := q\<lparr>unexpected_msg_stash := rest\<rparr>,
            memory := overwrite buf (received_bytes buf n (sm_payload s)) (memory w),
            na_completions := na_completions w @ [(c, p)]\<rparr>))"
proof (cases "unexpected_msg_stash (queues w)")
  case Nil
  with assms(1) show ?thesis
    by (simp add: na_libp2p_msg_recv_unexpected_def unexpected_op_def put_op_def Let_def)
next
  case (Cons s rest)
  with assms show ?thesis
    by (simp add: na_libp2p_msg_recv_unexpected_def unexpected_op_def put_op_def Let_def
        copy_payload_eq buffer_ok_def na_cb_completion_add_def)
qed

text \<open>What a receive of expected messages selects, and what a stashed message is.\<close>

type_synonym 'pid selector = "u32 \<times> 'pid option"
type_synonym 'pid message = "'pid \<times> u32 \<times> bytes"

definition op_selector :: "'pid na_state \<Rightarrow> op_id \<Rightarrow> 'pid selector" where
  "op_selector w op =
     (op_tag op, if op_addr op = null_ptr then None else map_option peer_id (addr_box w (op_addr op)))"

definition selector :: "'pid na_state \<Rightarrow> ptr \<Rightarrow> 'pid selector" where
  "selector w p = op_selector w (the (op_box w p))"

definition message_of :: "'pid na_state \<Rightarrow> stashed_message \<Rightarrow> 'pid message" where
  "message_of w m = (peer_id (the (addr_box w (sm_source_addr m))), sm_tag m, sm_payload m)"

fun expected_matches :: "ptr \<times> 'pid selector \<Rightarrow> 'pid message \<Rightarrow> bool" where
  "expected_matches (p, t, src) (peer, t', payload) \<longleftrightarrow> t = t' \<and> (src = None \<or> src = Some peer)"

definition unexpected_matches :: "ptr \<Rightarrow> 'pid message \<Rightarrow> bool" where
  "unexpected_matches p m = True"

text \<open>The two queues as states of the matching discipline.\<close>

definition unexpected_queue :: "'pid na_state \<Rightarrow> (ptr, 'pid message) match_state" where
  "unexpected_queue w =
     (unexpected_recv_ops (queues w), map (message_of w) (unexpected_msg_stash (queues w)))"

definition expected_queue :: "'pid na_state \<Rightarrow> (ptr \<times> 'pid selector, 'pid message) match_state" where
  "expected_queue w =
     (map (\<lambda>p. (p, selector w p)) (expected_recv_ops (queues w)),
      map (message_of w) (expected_msg_stash (queues w)))"

lemma stash_match_eq:
  "stashed_ok w m \<Longrightarrow>
   stash_match t src w m = Some (expected_matches (p, t, src) (message_of w m))"
  by (auto simp: stash_match_def stashed_ok_def message_of_def split: option.splits)

lemma op_match_eq:
  "posted_ok ty w p \<Longrightarrow>
   op_match h w p = Some (expected_matches (p, selector w p) (source_peer_id h, tag h, payload))"
  by (auto simp: op_match_def posted_ok_def selector_def op_selector_def split: option.splits)

text \<open>The index a receive of expected messages finds is that of its first match.\<close>

definition stash_index :: "ptr \<Rightarrow> 'pid selector \<Rightarrow> 'pid na_state \<Rightarrow> nat option" where
  "stash_index p sel w =
     position (\<lambda>m. expected_matches (p, sel) (message_of w m)) (expected_msg_stash (queues w))"

lemma recv_expected_eq:
  assumes "op_box w p = Some op" and "buffer_ok buf n w"
    and "source = null_ptr \<or> addr_box w source \<noteq> None"
    and "\<forall>m\<in>set (expected_msg_stash (queues w)). stashed_ok w m"
  shows "na_libp2p_msg_recv_expected c cb a buf n source t p w = Some (NA_SUCCESS,
     (let op' = expected_op c cb a buf n source t op; q = queues w in
      case stash_index p (op_selector w op') w of
        None \<Rightarrow> w\<lparr>op_box := (op_box w)(p \<mapsto> op'),
                 queues := q\<lparr>expected_recv_ops := expected_recv_ops q @ [p]\<rparr>\<rparr>
      | Some i \<Rightarrow>
          let s = expected_msg_stash q ! i in
          w\<lparr>op_box := (op_box w)(p \<mapsto> op'\<lparr>op_info := RecvExpectedInfo (length (sm_payload s)),
                                     op_ret := Some NA_SUCCESS\<rparr>),
            addr_box := (addr_box w)(sm_source_addr s := None),
            queues := q\<lparr>expected_msg_stash := remove_at i (expected_msg_stash q)\<rparr>,
            memory := overwrite buf (received_bytes buf n (sm_payload s)) (memory w),
            na_completions := na_completions w @ [(c, p)]\<rparr>))"
proof -
  let ?op = "expected_op c cb a buf n source t op"
  let ?w = "put_op p ?op w"
  define src where "src = snd (op_selector w ?op)"
  have sel: "op_selector w ?op = (t, src)"
    by (simp add: src_def op_selector_def expected_op_def)
  have pid: "(if source \<noteq> null_ptr then do { a \<leftarrow> addr_box ?w source; Some (Some (peer_id a)) } else Some None)
      = Some src"
    using assms(3) by (auto simp: src_def op_selector_def expected_op_def put_op_def)
  have "stash_match t src ?w m = Some (expected_matches (p, t, src) (message_of w m))"
    if "m \<in> set (expected_msg_stash (queues w))" for m
    using stash_match_eq [of ?w m t src p] assms(4) that
    by (simp add: stashed_ok_def message_of_def put_op_def)
  then have idx: "position_m (stash_match t src ?w) (expected_msg_stash (queues ?w))
      = Some (stash_index p (t, src) w)"
    unfolding stash_index_def by (subst position_m_total) (simp_all add: put_op_def)
  show ?thesis
  proof (cases "stash_index p (t, src) w")
    case None
    with assms(1) pid idx show ?thesis
      unfolding na_libp2p_msg_recv_expected_def
      by (simp add: Let_def sel expected_op_def [symmetric]) (simp add: put_op_def)
  next
    case (Some i)
    let ?s = "expected_msg_stash (queues w) ! i"
    from Some have "?s \<in> set (expected_msg_stash (queues w))"
      by (auto simp: stash_index_def dest: position_SomeD)
    with assms(4) obtain b where b: "sm_source_addr ?s \<noteq> null_ptr" "addr_box w (sm_source_addr ?s) = Some b"
      by (auto simp: stashed_ok_def)
    from Some assms(1,2) pid idx b show ?thesis
      unfolding na_libp2p_msg_recv_expected_def
      by (simp add: Let_def sel expected_op_def [symmetric])
         (simp add: put_op_def copy_payload_eq buffer_ok_def free_addr_def na_cb_completion_add_def)
  qed
qed

text \<open>The operation an incoming message finds.\<close>

definition op_index :: "'pid message \<Rightarrow> bool \<Rightarrow> 'pid na_state \<Rightarrow> nat option" where
  "op_index m expected w =
     (if expected then position (\<lambda>p. expected_matches (p, selector w p) m) (expected_recv_ops (queues w))
      else position (\<lambda>p. unexpected_matches p m) (unexpected_recv_ops (queues w)))"

definition fresh_addr :: "'pid \<Rightarrow> 'pid na_addr" where
  "fresh_addr p = \<lparr>peer_id = p, multiaddr = None, is_self = False\<rparr>"

lemma selector_frame:
  assumes "posted_ok ty w p" and "op_box w' p = op_box w p"
    and "\<forall>q. addr_box w q \<noteq> None \<longrightarrow> addr_box w' q = addr_box w q"
  shows "selector w' p = selector w p"
  using assms by (auto simp: posted_ok_def selector_def op_selector_def split: option.splits)

lemma message_frame:
  assumes "stashed_ok w m" and "\<forall>q. addr_box w q \<noteq> None \<longrightarrow> addr_box w' q = addr_box w q"
  shows "message_of w' m = message_of w m"
  using assms by (auto simp: stashed_ok_def message_of_def)

lemma handle_incoming_eq:
  assumes "queues_ok w" and "addr_box w (next_box w) = None"
  shows "handle_incoming_msg h payload expected w = Some
     (let q = queues w; src = next_box w;
          w1 = w\<lparr>addr_box := (addr_box w)(src \<mapsto> fresh_addr (source_peer_id h)), next_box := Suc src\<rparr>
      in case op_index (source_peer_id h, tag h, payload) expected w of
           None \<Rightarrow> w1\<lparr>queues := push_stash expected
                     \<lparr>sm_payload = payload, sm_source_addr = src, sm_tag = tag h\<rparr> q\<rparr>
         | Some i \<Rightarrow>
             let p = ops_queue expected q ! i; op = the (op_box w p) in
             send_completion
               \<lparr>ci_op_ptr = p, ci_result = NA_SUCCESS,
                ci_recv_info = Some \<lparr>ri_actual_size = length payload, ri_source_addr = src, ri_tag = tag h\<rparr>\<rparr>
               (w1\<lparr>queues := set_ops_queue expected (remove_at i (ops_queue expected q)) q,
                   memory := overwrite (op_buf op) (received_bytes (op_buf op) (op_buf_size op) payload)
                               (memory w)\<rparr>))"
proof -
  let ?m = "(source_peer_id h, tag h, payload)"
  let ?w1 = "w\<lparr>addr_box := (addr_box w)(next_box w \<mapsto> fresh_addr (source_peer_id h)),
               next_box := Suc (next_box w)\<rparr>"
  let ?ops = "ops_queue expected (queues w)"
  have alloc: "alloc_boxed (source_peer_id h) None False w = (next_box w, ?w1)"
    by (simp add: alloc_boxed_def alloc_addr_def fresh_addr_def)
  have grow: "\<forall>q. addr_box w q \<noteq> None \<longrightarrow> addr_box ?w1 q = addr_box w q"
    using assms(2) by auto
  have ok: "\<exists>ty. posted_ok ty w p" if "p \<in> set ?ops" for p
    using assms(1) that by (auto simp: queues_ok_def ops_queue_def split: if_splits)
  have "op_match h ?w1 p = Some (expected_matches (p, selector w p) ?m)" if "p \<in> set ?ops" for p
  proof -
    from ok [OF that] obtain ty where ty: "posted_ok ty w p" ..
    then have "posted_ok ty ?w1 p" using grow
      by (auto simp: posted_ok_def buffer_ok_def split: option.splits)
    from op_match_eq [OF this, of h payload] selector_frame [OF ty _ grow] show ?thesis by simp
  qed
  then have idx: "matched_recv h expected ?w1 = Some (op_index ?m expected w)"
    by (cases "unexpected_recv_ops (queues w)")
       (auto simp: matched_recv_def op_index_def ops_queue_def unexpected_matches_def
        intro!: position_m_total)
  show ?thesis
  proof (cases "op_index ?m expected w")
    case None
    with idx show ?thesis
      unfolding handle_incoming_msg_def alloc by (simp add: Let_def)
  next
    case (Some i)
    then have "?ops ! i \<in> set ?ops"
      by (auto simp: op_index_def ops_queue_def split: if_splits dest: position_SomeD)
    with ok obtain op where op: "op_box w (?ops ! i) = Some op" "buffer_ok (op_buf op) (op_buf_size op) w"
      by (fastforce simp: posted_ok_def split: option.splits)
    with Some idx show ?thesis
      unfolding handle_incoming_msg_def alloc
      by (simp add: Let_def copy_payload_eq buffer_ok_def)
  qed
qed

text \<open>Reporting a completion: the result code, and for a receive what it received.\<close>

definition reported :: "completion_item \<Rightarrow> op_id \<Rightarrow> op_id" where
  "reported c op =
     op\<lparr>op_ret := Some (ci_result c),
        op_info := (case ci_recv_info c of
            None \<Rightarrow> op_info op
          | Some ri \<Rightarrow>
              if op_type op = Some CB_RECV_UNEXPECTED
                then RecvUnexpectedInfo (ri_actual_size ri) (ri_source_addr ri) (ri_tag ri)
              else if op_type op = Some CB_RECV_EXPECTED then RecvExpectedInfo (ri_actual_size ri)
              else op_info op)\<rparr>"

text \<open>The source address that reporting frees: every one but that of an unexpected message.\<close>

definition freed_sources :: "'pid na_state \<Rightarrow> completion_item \<Rightarrow> ptr list" where
  "freed_sources w c =
     (case ci_recv_info c of
        None \<Rightarrow> []
      | Some ri \<Rightarrow>
          if map_option op_type (op_box w (ci_op_ptr c)) = Some (Some CB_RECV_UNEXPECTED) \<or>
             ri_source_addr ri = null_ptr then [] else [ri_source_addr ri])"

lemma poll_one_eq:
  assumes "op_box w (ci_op_ptr c) = Some op" and "set (freed_sources w c) \<subseteq> dom (addr_box w)"
  shows "poll_one c w = Some (w\<lparr>op_box := (op_box w)(ci_op_ptr c \<mapsto> reported c op),
      addr_box := addr_box w |` (- set (freed_sources w c)),
      na_completions := na_completions w @ [(op_context op, ci_op_ptr c)]\<rparr>)"
proof -
  have restrict: "(addr_box w)(a := None) = addr_box w |` (- {a})" for a
    by (auto simp: restrict_map_def fun_eq_iff)
  have keep: "addr_box w |` UNIV = addr_box w" by (auto simp: restrict_map_def)
  show ?thesis
  proof (cases "ci_recv_info c")
    case None
    with assms(1) keep show ?thesis
      by (simp add: poll_one_def reported_def freed_sources_def put_op_def na_cb_completion_add_def Let_def)
  next
    case (Some ri)
    consider "op_type op = Some CB_RECV_UNEXPECTED"
      | "op_type op \<noteq> Some CB_RECV_UNEXPECTED" "ri_source_addr ri = null_ptr"
      | "op_type op \<noteq> Some CB_RECV_UNEXPECTED" "ri_source_addr ri \<noteq> null_ptr" by blast
    then show ?thesis
    proof cases
      case 1
      with Some assms(1) keep show ?thesis
        by (simp add: poll_one_def reported_def freed_sources_def put_op_def na_cb_completion_add_def Let_def)
    next
      case 2
      with Some assms(1) keep show ?thesis
        by (simp add: poll_one_def reported_def freed_sources_def put_op_def na_cb_completion_add_def Let_def)
    next
      case 3
      with Some assms(2) obtain b where "addr_box w (ri_source_addr ri) = Some b"
        using assms(1) by (auto simp: freed_sources_def)
      with 3 Some assms(1) show ?thesis
        by (simp add: poll_one_def reported_def freed_sources_def put_op_def na_cb_completion_add_def
            free_addr_def restrict Let_def)
    qed
  qed
qed

text \<open>
  The completions waiting in the channel: each of a different live operation, with different
  live source addresses to free.
\<close>

definition completions_ok :: "completion_item list \<Rightarrow> 'pid na_state \<Rightarrow> bool" where
  "completions_ok cs w \<longleftrightarrow>
     distinct (map ci_op_ptr cs) \<and> ci_op_ptr ` set cs \<subseteq> dom (op_box w) \<and>
     distinct (concat (map (freed_sources w) cs)) \<and>
     set (concat (map (freed_sources w) cs)) \<subseteq> dom (addr_box w)"

text \<open>The operation at a pointer after the completions have been reported.\<close>

definition reported_box :: "completion_item list \<Rightarrow> (ptr \<rightharpoonup> op_id) \<Rightarrow> ptr \<rightharpoonup> op_id" where
  "reported_box cs box p =
     (case find (\<lambda>c. ci_op_ptr c = p) cs of
        None \<Rightarrow> box p
      | Some c \<Rightarrow> map_option (reported c) (box p))"

definition reported_contexts :: "completion_item list \<Rightarrow> (ptr \<rightharpoonup> op_id) \<Rightarrow> (ptr \<times> ptr) list" where
  "reported_contexts cs box = map (\<lambda>c. (op_context (the (box (ci_op_ptr c))), ci_op_ptr c)) cs"

lemma freed_sources_frame:
  "op_box w' (ci_op_ptr c) = op_box w (ci_op_ptr c) \<Longrightarrow> freed_sources w' c = freed_sources w c"
  by (simp add: freed_sources_def split: option.splits)

lemma poll_loop_eq:
  assumes "completion_rx w = cs" and "completions_ok cs w"
  shows "poll_loop cs k w = Some (k + of_nat (length cs),
     w\<lparr>op_box := reported_box cs (op_box w),
       addr_box := addr_box w |` (- set (concat (map (freed_sources w) cs))),
       completion_rx := [],
       na_completions := na_completions w @ reported_contexts cs (op_box w)\<rparr>)"
  using assms
proof (induction cs arbitrary: k w)
  case Nil
  have "addr_box w |` UNIV = addr_box w" "reported_box [] (op_box w) = op_box w"
    by (auto simp: restrict_map_def reported_box_def)
  with Nil show ?case by (cases w) (simp add: reported_contexts_def)
next
  case (Cons c cs)
  let ?p = "ci_op_ptr c" and ?w = "w\<lparr>completion_rx := cs\<rparr>"
  from Cons.prems(2) obtain op where op: "op_box w ?p = Some op"
    by (auto simp: completions_ok_def)
  have fs: "freed_sources ?w = freed_sources w" by (rule ext, rule freed_sources_frame) simp
  have new: "\<forall>d\<in>set cs. ci_op_ptr d \<noteq> ?p"
    using Cons.prems(2) by (auto simp: completions_ok_def image_iff)
  define w1 where "w1 = ?w\<lparr>op_box := (op_box w)(?p \<mapsto> reported c op),
      addr_box := addr_box w |` (- set (freed_sources w c)),
      na_completions := na_completions w @ [(op_context op, ?p)]\<rparr>"
  have one: "poll_one c ?w = Some w1"
    using poll_one_eq [of ?w c op] op Cons.prems(2) by (simp add: fs completions_ok_def w1_def)
  have fs1: "freed_sources w1 d = freed_sources w d" if "d \<in> set cs" for d
  proof (rule freed_sources_frame)
    from that new have "ci_op_ptr d \<noteq> ?p" by blast
    then show "op_box w1 (ci_op_ptr d) = op_box w (ci_op_ptr d)" by (simp add: w1_def)
  qed
  then have map1: "map (freed_sources w1) cs = map (freed_sources w) cs" by simp
  have ok1: "completions_ok cs w1"
    using Cons.prems(2) new unfolding completions_ok_def map1 by (auto simp: w1_def)
  have box: "reported_box cs (op_box w1) = reported_box (c # cs) (op_box w)"
  proof (rule ext)
    fix p
    have "find (\<lambda>d. ci_op_ptr d = p) cs = None" if "p = ?p"
      using new that by (auto simp: find_None_iff)
    with op show "reported_box cs (op_box w1) p = reported_box (c # cs) (op_box w) p"
      by (cases "p = ?p") (simp_all add: reported_box_def w1_def split: option.splits)
  qed
  have ctx: "reported_contexts cs (op_box w1) = reported_contexts cs (op_box w)"
    using new by (auto simp: reported_contexts_def w1_def)
  have "completion_rx w1 = cs" by (simp add: w1_def)
  from Cons.IH [OF this ok1, of "k + 1"] one show ?case
    unfolding box map1 ctx
    by (simp add: w1_def op reported_contexts_def restrict_restrict Compl_Un [symmetric] Int_commute algebra_simps)
qed

text \<open>Cancellation, with the queue that holds the operation.\<close>

lemma position_remove1:
  "position (\<lambda>y. y = x) xs = Some i \<Longrightarrow> remove_at i xs = remove1 x xs \<and> x \<in> set xs"
  "position (\<lambda>y. y = x) xs = None \<longleftrightarrow> x \<notin> set xs"
  using position_eq_remove1 [where x = x and xs = xs]
  by (auto simp: position_None_iff dest: position_SomeD split: option.splits)

lemma cancel_eq:
  assumes "p \<in> set (unexpected_recv_ops (queues w)) \<union> set (expected_recv_ops (queues w))
             \<union> set (pending_rma_ops (queues w)) \<Longrightarrow> op_box w p \<noteq> None"
  shows "na_libp2p_cancel c p w = Some (NA_SUCCESS,
     (let q = queues w; done = (\<lambda>q'. w\<lparr>op_box := (op_box w)(p \<mapsto> (the (op_box w p))\<lparr>op_ret := Some NA_CANCELED\<rparr>),
                                 queues := q', na_completions := na_completions w @ [(c, p)]\<rparr>) in
      if p \<in> set (unexpected_recv_ops q)
        then done (q\<lparr>unexpected_recv_ops := remove1 p (unexpected_recv_ops q)\<rparr>)
      else if p \<in> set (expected_recv_ops q)
        then done (q\<lparr>expected_recv_ops := remove1 p (expected_recv_ops q)\<rparr>)
      else if p \<in> set (pending_rma_ops q)
        then done (q\<lparr>pending_rma_ops := remove1 p (pending_rma_ops q)\<rparr>)
      else w))"
proof -
  have canceled: "complete_canceled c p (w\<lparr>queues := q'\<rparr>) = Some
      (w\<lparr>op_box := (op_box w)(p \<mapsto> (the (op_box w p))\<lparr>op_ret := Some NA_CANCELED\<rparr>),
         queues := q', na_completions := na_completions w @ [(c, p)]\<rparr>)"
    if "op_box w p \<noteq> None" for q'
    using that by (auto simp: complete_canceled_def put_op_def na_cb_completion_add_def)
  show ?thesis
    using assms
    by (auto simp: na_libp2p_cancel_def Let_def canceled position_remove1(2) dest!: position_remove1(1)
        split: option.splits)
qed

section \<open>Refinement of the matching discipline\<close>

lemma expected_queue_frame:
  assumes "expected_recv_ops (queues w') = expected_recv_ops (queues w)"
    and "expected_msg_stash (queues w') = expected_msg_stash (queues w)"
    and "\<And>p. p \<in> set (expected_recv_ops (queues w)) \<Longrightarrow> selector w' p = selector w p"
    and "\<And>m. m \<in> set (expected_msg_stash (queues w)) \<Longrightarrow> message_of w' m = message_of w m"
  shows "expected_queue w' = expected_queue w"
  using assms by (simp add: expected_queue_def)

lemma unexpected_queue_frame:
  assumes "unexpected_recv_ops (queues w') = unexpected_recv_ops (queues w)"
    and "unexpected_msg_stash (queues w') = unexpected_msg_stash (queues w)"
    and "\<And>m. m \<in> set (unexpected_msg_stash (queues w)) \<Longrightarrow> message_of w' m = message_of w m"
  shows "unexpected_queue w' = unexpected_queue w"
  using assms by (simp add: unexpected_queue_def)

text \<open>What a completed receive of an unexpected or expected message tells its client.\<close>

definition received_unexpected :: "'pid na_state \<Rightarrow> ptr \<Rightarrow> 'pid message \<Rightarrow> bool" where
  "received_unexpected w p m \<longleftrightarrow>
     (case (op_box w p, m) of
        (Some op, (peer, t, payload)) \<Rightarrow>
          op_ret op = Some NA_SUCCESS \<and>
          (case op_info op of
             RecvUnexpectedInfo n src t' \<Rightarrow>
               n = length payload \<and> t' = t \<and> map_option peer_id (addr_box w src) = Some peer
           | _ \<Rightarrow> False)
      | _ \<Rightarrow> False)"

definition received_expected :: "'pid na_state \<Rightarrow> ptr \<Rightarrow> 'pid message \<Rightarrow> bool" where
  "received_expected w p m \<longleftrightarrow>
     (case (op_box w p, m) of
        (Some op, (peer, t, payload)) \<Rightarrow>
          op_ret op = Some NA_SUCCESS \<and> op_info op = RecvExpectedInfo (length payload)
      | _ \<Rightarrow> False)"

text \<open>Posting a receive of unexpected messages acts on the queues as the discipline says.\<close>

definition taken_unexpected :: "ptr \<Rightarrow> 'pid na_state \<Rightarrow> (ptr \<times> 'pid message) option" where
  "taken_unexpected p w =
     (case unexpected_msg_stash (queues w) of [] \<Rightarrow> None | s # _ \<Rightarrow> Some (p, message_of w s))"

lemma recv_unexpected_queues:
  assumes "op_box w p = Some op" and "buffer_ok buf n w" and "p \<notin> set (expected_recv_ops (queues w))"
    and "na_libp2p_msg_recv_unexpected c cb a buf n p w = Some (r, w')"
  shows "match_step unexpected_matches (Post p) (unexpected_queue w) = (taken_unexpected p w, unexpected_queue w')"
    and "expected_queue w' = expected_queue w"
proof -
  note run = recv_unexpected_eq [OF assms(1,2), of c cb a, unfolded assms(4) option.inject prod.inject]
  have box: "addr_box w' = addr_box w" and q: "expected_recv_ops (queues w') = expected_recv_ops (queues w)"
    "expected_msg_stash (queues w') = expected_msg_stash (queues w)"
    and op: "x \<noteq> p \<Longrightarrow> op_box w' x = op_box w x" for x
    using run by (auto simp: Let_def split: list.splits)
  have msg: "message_of w' = message_of w" by (rule ext) (simp add: message_of_def box)
  have "selector w' x = selector w x" if "x \<in> set (expected_recv_ops (queues w))" for x
  proof -
    from that assms(3) have "x \<noteq> p" by blast
    from op [OF this] box show ?thesis by (simp add: selector_def op_selector_def)
  qed
  then show "expected_queue w' = expected_queue w" by (simp add: expected_queue_def q msg)
  show "match_step unexpected_matches (Post p) (unexpected_queue w) = (taken_unexpected p w, unexpected_queue w')"
  proof -
    have "unexpected_msg_stash (queues w') = tl (unexpected_msg_stash (queues w))"
      "unexpected_recv_ops (queues w') = unexpected_recv_ops (queues w) @
         (if unexpected_msg_stash (queues w) = [] then [p] else [])"
      using run by (auto simp: Let_def split: list.splits)
    then show ?thesis
      by (cases "unexpected_msg_stash (queues w)")
         (simp_all add: unexpected_queue_def taken_unexpected_def unexpected_matches_def msg)
  qed
qed

text \<open>Posting a receive of unexpected messages follows the matching discipline: with a stashed
  message it takes the oldest one, copies as much of it as fits into the buffer and completes
  at once with the full length, the sender's address and the tag; otherwise it is queued
  behind the other receives. The queue of expected messages is untouched.\<close>

lemma recv_unexpected_refines:
  assumes "queues_ok w" and "op_box w p = Some op" and "buffer_ok buf n w"
    and "p \<notin> set (expected_recv_ops (queues w))"
  shows "\<exists>w'. na_libp2p_msg_recv_unexpected c cb a buf n p w = Some (NA_SUCCESS, w') \<and>
    expected_queue w' = expected_queue w \<and>
    (case match_step unexpected_matches (Post p) (unexpected_queue w) of
       (None, s) \<Rightarrow>
         unexpected_queue w' = s \<and> na_completions w' = na_completions w \<and> memory w' = memory w
     | (Some (_, m), s) \<Rightarrow>
         unexpected_queue w' = s \<and> na_completions w' = na_completions w @ [(c, p)] \<and>
         memory w' = overwrite buf (received_bytes buf n (snd (snd m))) (memory w) \<and>
         received_unexpected w' p m)"
proof -
  obtain w' where run: "na_libp2p_msg_recv_unexpected c cb a buf n p w = Some (NA_SUCCESS, w')"
    using recv_unexpected_eq [OF assms(2,3)] by blast
  note w' = recv_unexpected_eq [OF assms(2,3), of c cb a, unfolded run option.inject prod.inject]
  note queues = recv_unexpected_queues [OF assms(2-4) run]
  show ?thesis
  proof (cases "unexpected_msg_stash (queues w)")
    case Nil
    with run w' queues show ?thesis by (simp add: taken_unexpected_def Let_def)
  next
    case (Cons s rest)
    moreover have "stashed_ok w s" using assms(1) Cons by (simp add: queues_ok_def)
    ultimately show ?thesis
      using run w' queues
      by (auto simp: taken_unexpected_def Let_def received_unexpected_def message_of_def stashed_ok_def)
  qed
qed

text \<open>Freeing an address that no waiting receive and no other stashed message uses.\<close>

lemma selector_free:
  assumes "op_box w p = Some op" "op_box w' p = Some op" "op_addr op \<noteq> a" "addr_box w' = (addr_box w)(a := None)"
  shows "selector w' p = selector w p"
  using assms by (simp add: selector_def op_selector_def)

lemma message_free:
  assumes "sm_source_addr m \<noteq> a" "addr_box w' = (addr_box w)(a := None)"
  shows "message_of w' m = message_of w m"
  using assms by (simp add: message_of_def)

text \<open>The addresses of the messages that stay, when one expected message leaves the stash.\<close>

lemma stash_addrs_distinct:
  assumes "queues_ok w" "i < length (expected_msg_stash (queues w))"
  shows "m \<in> set (remove_at i (expected_msg_stash (queues w))) \<Longrightarrow>
           sm_source_addr m \<noteq> sm_source_addr (expected_msg_stash (queues w) ! i)"
    and "m \<in> set (unexpected_msg_stash (queues w)) \<Longrightarrow>
           sm_source_addr m \<noteq> sm_source_addr (expected_msg_stash (queues w) ! i)"
    and "p \<in> set (expected_recv_ops (queues w)) \<Longrightarrow>
           op_addr (the (op_box w p)) \<noteq> sm_source_addr (expected_msg_stash (queues w) ! i)"
  using assms
  by (auto simp: queues_ok_def stash_addrs_def distinct_map_remove_at)

text \<open>Posting a receive of expected messages acts on the queues as the discipline says.\<close>

definition source_peer :: "ptr \<Rightarrow> 'pid na_state \<Rightarrow> 'pid option" where
  "source_peer source w = (if source = null_ptr then None else map_option peer_id (addr_box w source))"

definition taken_expected ::
  "ptr \<Rightarrow> 'pid selector \<Rightarrow> 'pid na_state \<Rightarrow> ((ptr \<times> 'pid selector) \<times> 'pid message) option" where
  "taken_expected p sel w =
     map_option (\<lambda>i. ((p, sel), message_of w (expected_msg_stash (queues w) ! i))) (stash_index p sel w)"

lemma recv_expected_queues:
  assumes "queues_ok w" and "op_box w p = Some op" and "buffer_ok buf n w"
    and "source = null_ptr \<or> addr_box w source \<noteq> None"
    and "p \<notin> set (expected_recv_ops (queues w))"
    and "na_libp2p_msg_recv_expected c cb a buf n source t p w = Some (r, w')"
  shows "match_step expected_matches (Post (p, t, source_peer source w)) (expected_queue w)
       = (taken_expected p (t, source_peer source w) w, expected_queue w')"
    and "unexpected_queue w' = unexpected_queue w"
proof -
  let ?op = "expected_op c cb a buf n source t op"
  let ?q = "queues w" and ?sel = "(t, source_peer source w)"
  let ?stash = "expected_msg_stash ?q"
  have sel: "op_selector w ?op = ?sel" by (simp add: op_selector_def expected_op_def source_peer_def)
  have stash: "\<forall>m\<in>set ?stash. stashed_ok w m" using assms(1) by (simp add: queues_ok_def)
  note run = recv_expected_eq [OF assms(2,3,4) stash, of c cb a t, unfolded sel Let_def assms(6) option.inject prod.inject]
  have idx: "position (expected_matches (p, ?sel)) (snd (expected_queue w)) = stash_index p ?sel w"
    by (simp add: expected_queue_def position_map stash_index_def)
  have both: "match_step expected_matches (Post (p, ?sel)) (expected_queue w)
      = (taken_expected p ?sel w, expected_queue w') \<and> unexpected_queue w' = unexpected_queue w"
  proof (cases "stash_index p ?sel w")
    case None
    with run have box: "op_box w' = (op_box w)(p \<mapsto> ?op)" "addr_box w' = addr_box w"
      "queues w' = ?q\<lparr>expected_recv_ops := expected_recv_ops ?q @ [p]\<rparr>" by simp_all
    have msg: "message_of w' = message_of w" by (rule ext) (simp add: message_of_def box)
    moreover have "selector w' p = ?sel"
      by (simp add: selector_def op_selector_def expected_op_def box source_peer_def)
    moreover have "selector w' x = selector w x" if "x \<in> set (expected_recv_ops ?q)" for x
    proof -
      from that assms(5) have "x \<noteq> p" by blast
      then show ?thesis by (simp add: selector_def op_selector_def box)
    qed
    ultimately show ?thesis
      using None idx by (simp add: expected_queue_def unexpected_queue_def taken_expected_def box)
  next
    case (Some i)
    let ?s = "?stash ! i"
    from Some have i: "i < length ?stash" by (auto simp: stash_index_def dest: position_SomeD)
    note other = stash_addrs_distinct [OF assms(1) i]
    from run Some have box: "addr_box w' = (addr_box w)(sm_source_addr ?s := None)"
      "queues w' = ?q\<lparr>expected_msg_stash := remove_at i ?stash\<rparr>" "\<And>x. x \<noteq> p \<Longrightarrow> op_box w' x = op_box w x"
      by simp_all
    have "unexpected_queue w' = unexpected_queue w"
      using other(2) box(1) by (intro unexpected_queue_frame message_free) (simp_all add: box(2))
    moreover have "selector w' x = selector w x" if "x \<in> set (expected_recv_ops ?q)" for x
    proof -
      from that assms(5) have "x \<noteq> p" by blast
      from that assms(1) obtain o' where "op_box w x = Some o'"
        by (fastforce simp: queues_ok_def posted_ok_def split: option.splits)
      with other(3) [OF that] box(1) box(3) [OF \<open>x \<noteq> p\<close>] show ?thesis
        by (intro selector_free [of w x o' w' "sm_source_addr ?s"]) simp_all
    qed
    moreover have "map (message_of w') (remove_at i ?stash) = map (message_of w) (remove_at i ?stash)"
      using other(1) box(1) by (intro map_cong message_free) simp_all
    ultimately show ?thesis
      using Some idx i by (simp add: expected_queue_def remove_at_map taken_expected_def box(2))
  qed
  then show "match_step expected_matches (Post (p, ?sel)) (expected_queue w) = (taken_expected p ?sel w, expected_queue w')"
    and "unexpected_queue w' = unexpected_queue w" by simp_all
qed

text \<open>C17: posting a receive of expected messages follows the matching discipline: it takes the
  oldest stashed message with its tag and, when it names a source, from that peer, copies as
  much of it as fits and completes at once with the full length, freeing the message's own
  address; otherwise it is queued. The queue of unexpected messages is untouched.\<close>

theorem recv_expected_refines:
  assumes "queues_ok w" and "op_box w p = Some op" and "buffer_ok buf n w"
    and "source = null_ptr \<or> addr_box w source \<noteq> None"
    and "p \<notin> set (expected_recv_ops (queues w))"
  shows "\<exists>w'. na_libp2p_msg_recv_expected c cb a buf n source t p w = Some (NA_SUCCESS, w') \<and>
    unexpected_queue w' = unexpected_queue w \<and>
    (case match_step expected_matches (Post (p, t, source_peer source w)) (expected_queue w) of
       (None, s) \<Rightarrow>
         expected_queue w' = s \<and> na_completions w' = na_completions w \<and> memory w' = memory w
     | (Some (_, m), s) \<Rightarrow>
         expected_queue w' = s \<and> na_completions w' = na_completions w @ [(c, p)] \<and>
         memory w' = overwrite buf (received_bytes buf n (snd (snd m))) (memory w) \<and>
         received_expected w' p m)"
proof -
  let ?op = "expected_op c cb a buf n source t op"
  have sel: "op_selector w ?op = (t, source_peer source w)"
    by (simp add: op_selector_def expected_op_def source_peer_def)
  have stash: "\<forall>m\<in>set (expected_msg_stash (queues w)). stashed_ok w m" using assms(1) by (simp add: queues_ok_def)
  note eq = recv_expected_eq [OF assms(2-4) stash, of c cb a t, unfolded sel Let_def]
  then obtain w' where run: "na_libp2p_msg_recv_expected c cb a buf n source t p w = Some (NA_SUCCESS, w')"
    by blast
  note queues = recv_expected_queues [OF assms run]
  show ?thesis
    using run eq [unfolded run option.inject prod.inject] queues
    by (cases "stash_index p (t, source_peer source w) w")
       (auto simp: taken_expected_def received_expected_def message_of_def)
qed

text \<open>
  A message handed to a posted receive: its bytes are in the receive's buffer as far as they
  fit, and a completion with the full length, a fresh address of the sender and the tag is
  in the channel.
\<close>

definition handed_over :: "'pid na_state \<Rightarrow> 'pid na_state \<Rightarrow> ptr \<Rightarrow> 'pid message \<Rightarrow> bool" where
  "handed_over w w' p m \<longleftrightarrow>
     (case (op_box w p, m) of
        (Some op, (peer, t, payload)) \<Rightarrow>
          memory w' = overwrite (op_buf op) (received_bytes (op_buf op) (op_buf_size op) payload) (memory w) \<and>
          completion_rx w' = completion_rx w @
            [\<lparr>ci_op_ptr = p, ci_result = NA_SUCCESS,
              ci_recv_info = Some \<lparr>ri_actual_size = length payload, ri_source_addr = next_box w, ri_tag = t\<rparr>\<rparr>] \<and>
          addr_box w' (next_box w) = Some (fresh_addr peer)
      | _ \<Rightarrow> False)"

lemma send_completion_simps [simp]:
  "completion_rx (send_completion c w) = completion_rx w @ [c]"
  "queues (send_completion c w) = queues w"
  "op_box (send_completion c w) = op_box w"
  "addr_box (send_completion c w) = addr_box w"
  "mh_box (send_completion c w) = mh_box w"
  "memory (send_completion c w) = memory w"
  "next_box (send_completion c w) = next_box w"
  "mem_handles (send_completion c w) = mem_handles w"
  "na_completions (send_completion c w) = na_completions w"
  "cmd_tx (send_completion c w) = cmd_tx w"
  "cmd_closed (send_completion c w) = cmd_closed w"
  by (simp_all add: send_completion_def signal_eventfd_def)

text \<open>An incoming message leaves what waits in the queues as it is, seen from the new state.\<close>

lemma incoming_frame:
  assumes "queues_ok w" and "addr_box w (next_box w) = None"
    and "op_box w' = op_box w"
    and "addr_box w' = (addr_box w)(next_box w \<mapsto> a)"
  shows "p \<in> set (expected_recv_ops (queues w)) \<Longrightarrow> selector w' p = selector w p"
    and "m \<in> set (unexpected_msg_stash (queues w)) \<Longrightarrow> message_of w' m = message_of w m"
    and "m \<in> set (expected_msg_stash (queues w)) \<Longrightarrow> message_of w' m = message_of w m"
proof -
  have grow: "\<forall>q. addr_box w q \<noteq> None \<longrightarrow> addr_box w' q = addr_box w q"
    using assms(2,4) by auto
  show "selector w' p = selector w p" if "p \<in> set (expected_recv_ops (queues w))"
    using assms(1,3) that grow
    by (intro selector_frame [of CB_RECV_EXPECTED]) (auto simp: queues_ok_def)
  show "message_of w' m = message_of w m" if "m \<in> set (unexpected_msg_stash (queues w))"
    using assms(1) that grow by (intro message_frame) (auto simp: queues_ok_def)
  show "message_of w' m = message_of w m" if "m \<in> set (expected_msg_stash (queues w))"
    using assms(1) that grow by (intro message_frame) (auto simp: queues_ok_def)
qed

text \<open>An incoming message acts on the two queues as the discipline says.\<close>

definition handed_unexpected :: "'pid message \<Rightarrow> 'pid na_state \<Rightarrow> (ptr \<times> 'pid message) option" where
  "handed_unexpected m w = map_option (\<lambda>i. (unexpected_recv_ops (queues w) ! i, m)) (op_index m False w)"

definition handed_expected ::
  "'pid message \<Rightarrow> 'pid na_state \<Rightarrow> ((ptr \<times> 'pid selector) \<times> 'pid message) option" where
  "handed_expected m w =
     map_option (\<lambda>i. let p = expected_recv_ops (queues w) ! i in ((p, selector w p), m)) (op_index m True w)"

lemma incoming_boxes:
  assumes "queues_ok w" and "addr_box w (next_box w) = None" and "handle_incoming_msg h payload b w = Some w'"
  shows "op_box w' = op_box w" and "addr_box w' = (addr_box w)(next_box w \<mapsto> fresh_addr (source_peer_id h))"
    and "queues w' = (case op_index (source_peer_id h, tag h, payload) b w of
        None \<Rightarrow> push_stash b \<lparr>sm_payload = payload, sm_source_addr = next_box w, sm_tag = tag h\<rparr> (queues w)
      | Some i \<Rightarrow> set_ops_queue b (remove_at i (ops_queue b (queues w))) (queues w))"
  using handle_incoming_eq [OF assms(1,2), of h payload b, unfolded assms(3) option.inject Let_def]
  by (simp_all split: option.splits)

lemma incoming_unexpected_queues:
  assumes "queues_ok w" and "addr_box w (next_box w) = None" and "handle_incoming_msg h payload False w = Some w'"
  shows "match_step unexpected_matches (Arrive (source_peer_id h, tag h, payload)) (unexpected_queue w)
       = (handed_unexpected (source_peer_id h, tag h, payload) w, unexpected_queue w')"
    and "expected_queue w' = expected_queue w"
proof -
  let ?m = "(source_peer_id h, tag h, payload)"
  note boxes = incoming_boxes [OF assms]
  note frame = incoming_frame [OF assms(1,2) boxes(1,2)]
  have "expected_recv_ops (queues w') = expected_recv_ops (queues w)"
    "expected_msg_stash (queues w') = expected_msg_stash (queues w)"
    by (simp_all add: boxes(3) push_stash_def set_ops_queue_def split: option.split)
  then show "expected_queue w' = expected_queue w" using frame by (intro expected_queue_frame)
  have idx: "position (\<lambda>p. unexpected_matches p ?m) (unexpected_recv_ops (queues w)) = op_index ?m False w"
    by (simp add: op_index_def)
  show "match_step unexpected_matches (Arrive ?m) (unexpected_queue w) = (handed_unexpected ?m w, unexpected_queue w')"
  proof (cases "op_index ?m False w")
    case None
    with idx frame(2) boxes(2,3) show ?thesis
      by (simp add: unexpected_queue_def handed_unexpected_def push_stash_def message_of_def fresh_addr_def)
  next
    case (Some i)
    with idx frame(2) boxes(3) show ?thesis
      by (simp add: unexpected_queue_def handed_unexpected_def set_ops_queue_def ops_queue_def)
  qed
qed

lemma incoming_expected_queues:
  assumes "queues_ok w" and "addr_box w (next_box w) = None" and "handle_incoming_msg h payload True w = Some w'"
  shows "match_step expected_matches (Arrive (source_peer_id h, tag h, payload)) (expected_queue w)
       = (handed_expected (source_peer_id h, tag h, payload) w, expected_queue w')"
    and "unexpected_queue w' = unexpected_queue w"
proof -
  let ?m = "(source_peer_id h, tag h, payload)"
  note boxes = incoming_boxes [OF assms]
  note frame = incoming_frame [OF assms(1,2) boxes(1,2)]
  have "unexpected_recv_ops (queues w') = unexpected_recv_ops (queues w)"
    "unexpected_msg_stash (queues w') = unexpected_msg_stash (queues w)"
    by (simp_all add: boxes(3) push_stash_def set_ops_queue_def split: option.split)
  then show "unexpected_queue w' = unexpected_queue w" using frame by (intro unexpected_queue_frame)
  have idx: "op_index ?m True w = position (\<lambda>p. expected_matches p ?m) (fst (expected_queue w))"
    by (simp add: op_index_def expected_queue_def position_map)
  show "match_step expected_matches (Arrive ?m) (expected_queue w) = (handed_expected ?m w, expected_queue w')"
  proof (cases "op_index ?m True w")
    case None
    with idx frame(1,3) boxes(2,3) show ?thesis
      by (simp add: expected_queue_def handed_expected_def push_stash_def message_of_def fresh_addr_def)
  next
    case (Some i)
    then have i: "i < length (expected_recv_ops (queues w))" by (auto simp: op_index_def dest: position_SomeD)
    have "map (\<lambda>p. (p, selector w' p)) (remove_at i (expected_recv_ops (queues w)))
        = map (\<lambda>p. (p, selector w p)) (remove_at i (expected_recv_ops (queues w)))"
      using frame(1) set_remove_at_subset [of i "expected_recv_ops (queues w)"] by (intro map_cong) auto
    with Some idx frame(3) boxes(3) i show ?thesis
      by (simp add: expected_queue_def handed_expected_def set_ops_queue_def ops_queue_def remove_at_map Let_def)
  qed
qed

text \<open>An incoming unexpected message follows the matching discipline: it is handed to the
  oldest posted receive, or stashed behind the others when none is posted. The queue of
  expected messages is untouched.\<close>

lemma incoming_unexpected_refines:
  assumes "queues_ok w" and "addr_box w (next_box w) = None"
  shows "\<exists>w'. handle_incoming_msg h payload False w = Some w' \<and>
    expected_queue w' = expected_queue w \<and>
    (let m = (source_peer_id h, tag h, payload) in
     case match_step unexpected_matches (Arrive m) (unexpected_queue w) of
       (None, s) \<Rightarrow>
         unexpected_queue w' = s \<and> completion_rx w' = completion_rx w \<and> memory w' = memory w
     | (Some (p, _), s) \<Rightarrow> unexpected_queue w' = s \<and> handed_over w w' p m)"
proof -
  let ?m = "(source_peer_id h, tag h, payload)" and ?q = "queues w"
  obtain w' where run: "handle_incoming_msg h payload False w = Some w'"
    using handle_incoming_eq [OF assms] by blast
  note w' = handle_incoming_eq [OF assms, of h payload False, unfolded run option.inject Let_def]
  note queues = incoming_unexpected_queues [OF assms run]
  show ?thesis
  proof (cases "op_index ?m False w")
    case None
    with run w' queues show ?thesis by (simp add: handed_unexpected_def)
  next
    case (Some i)
    then have "i < length (unexpected_recv_ops ?q)"
      by (auto simp: op_index_def dest: position_SomeD)
    with assms(1) obtain op where "op_box w (unexpected_recv_ops ?q ! i) = Some op"
      by (fastforce simp: queues_ok_def posted_ok_def split: option.splits)
    with Some run w' queues show ?thesis
      by (simp add: handed_unexpected_def ops_queue_def handed_over_def Let_def)
  qed
qed

text \<open>C16: an incoming expected message follows the matching discipline: it is handed to the
  oldest posted receive with its tag that names no source or its sender, or stashed behind
  the others when there is none. The queue of unexpected messages is untouched.\<close>

theorem incoming_expected_refines:
  assumes "queues_ok w" and "addr_box w (next_box w) = None"
  shows "\<exists>w'. handle_incoming_msg h payload True w = Some w' \<and>
    unexpected_queue w' = unexpected_queue w \<and>
    (let m = (source_peer_id h, tag h, payload) in
     case match_step expected_matches (Arrive m) (expected_queue w) of
       (None, s) \<Rightarrow>
         expected_queue w' = s \<and> completion_rx w' = completion_rx w \<and> memory w' = memory w
     | (Some (p, _), s) \<Rightarrow> expected_queue w' = s \<and> handed_over w w' (fst p) m)"
proof -
  let ?m = "(source_peer_id h, tag h, payload)" and ?q = "queues w"
  obtain w' where run: "handle_incoming_msg h payload True w = Some w'"
    using handle_incoming_eq [OF assms] by blast
  note w' = handle_incoming_eq [OF assms, of h payload True, unfolded run option.inject Let_def]
  note queues = incoming_expected_queues [OF assms run]
  show ?thesis
  proof (cases "op_index ?m True w")
    case None
    with run w' queues show ?thesis by (simp add: handed_expected_def)
  next
    case (Some i)
    then have "i < length (expected_recv_ops ?q)"
      by (auto simp: op_index_def dest: position_SomeD)
    with assms(1) obtain op where "op_box w (expected_recv_ops ?q ! i) = Some op"
      by (fastforce simp: queues_ok_def posted_ok_def split: option.splits)
    with Some run w' queues show ?thesis
      by (simp add: handed_expected_def ops_queue_def handed_over_def Let_def)
  qed
qed

lemma find_key:
  "distinct (map f xs) \<Longrightarrow> x \<in> set xs \<Longrightarrow> find (\<lambda>y. f y = f x) xs = Some x"
  by (induction xs) (auto simp: image_iff)

text \<open>C18: polling takes every completion out of the channel, resets the event counter, reports
  how many there were, and passes each operation, in the order of the channel, to Mercury
  with its own context, result code and receive information; the addresses of expected
  messages are freed and those of unexpected messages stay for the client.\<close>

theorem poll_reports_all:
  assumes "completions_ok (completion_rx w) w"
  shows "\<exists>w'. na_libp2p_poll w = Some (NA_SUCCESS, of_nat (length (completion_rx w)), w') \<and>
    completion_rx w' = [] \<and> event_fd w' = 0 \<and> na_libp2p_poll_try_wait w' \<and>
    na_completions w' = na_completions w @
      map (\<lambda>c. (op_context (the (op_box w (ci_op_ptr c))), ci_op_ptr c)) (completion_rx w) \<and>
    (\<forall>c\<in>set (completion_rx w).
       op_box w' (ci_op_ptr c) = map_option (reported c) (op_box w (ci_op_ptr c))) \<and>
    addr_box w' = addr_box w |` (- set (concat (map (freed_sources w) (completion_rx w)))) \<and>
    queues w' = queues w \<and> memory w' = memory w"
proof -
  let ?cs = "completion_rx w" and ?w = "drain_eventfd w"
  have fs: "freed_sources ?w = freed_sources w"
    by (rule ext, rule freed_sources_frame) (simp add: drain_eventfd_def)
  have "completions_ok ?cs ?w" using assms by (simp add: completions_ok_def fs) (simp add: drain_eventfd_def)
  moreover have "completion_rx ?w = ?cs" by (simp add: drain_eventfd_def)
  ultimately have loop: "poll_loop ?cs 0 ?w = Some (of_nat (length ?cs),
     ?w\<lparr>op_box := reported_box ?cs (op_box w),
       addr_box := addr_box w |` (- set (concat (map (freed_sources w) ?cs))),
       completion_rx := [],
       na_completions := na_completions w @ reported_contexts ?cs (op_box w)\<rparr>)"
    using poll_loop_eq [of ?w ?cs 0] by (simp add: fs) (simp add: drain_eventfd_def)
  have "reported_box ?cs (op_box w) (ci_op_ptr c) = map_option (reported c) (op_box w (ci_op_ptr c))"
    if "c \<in> set ?cs" for c
  proof -
    have "distinct (map ci_op_ptr ?cs)" using assms by (simp add: completions_ok_def)
    then have "find (\<lambda>d. ci_op_ptr d = ci_op_ptr c) ?cs = Some c" using that by (rule find_key)
    then show ?thesis by (simp add: reported_box_def)
  qed
  with loop \<open>completion_rx ?w = ?cs\<close> show ?thesis
    by (simp add: na_libp2p_poll_def na_libp2p_poll_try_wait_def reported_contexts_def Let_def)
       (simp add: drain_eventfd_def)
qed

lemma remove1_key: "remove1 (x, f x) (map (\<lambda>y. (y, f y)) xs) = map (\<lambda>y. (y, f y)) (remove1 x xs)"
  by (induction xs) auto

definition waiting_ops :: "'pid na_state \<Rightarrow> ptr list" where
  "waiting_ops w =
     unexpected_recv_ops (queues w) @ expected_recv_ops (queues w) @ pending_rma_ops (queues w)"

lemma cancel_run:
  assumes "p \<in> set (waiting_ops w) \<Longrightarrow> op_box w p \<noteq> None"
  shows "\<exists>w'. na_libp2p_cancel c p w = Some (NA_SUCCESS, w')"
  using cancel_eq [of p w c] assms by (auto simp: waiting_ops_def)

lemma cancel_queues:
  assumes "distinct (waiting_ops w)" and "p \<in> set (waiting_ops w) \<Longrightarrow> op_box w p \<noteq> None"
    and "na_libp2p_cancel c p w = Some (r, w')"
  shows "unexpected_queue w' = snd (match_step unexpected_matches (Withdraw p) (unexpected_queue w))"
    and "expected_queue w' = snd (match_step expected_matches (Withdraw (p, selector w p)) (expected_queue w))"
    and "pending_rma_ops (queues w') = remove1 p (pending_rma_ops (queues w))"
proof -
  let ?q = "queues w"
  have live: "p \<in> set (unexpected_recv_ops ?q) \<union> set (expected_recv_ops ?q) \<union> set (pending_rma_ops ?q)
      \<Longrightarrow> op_box w p \<noteq> None"
    using assms(2) by (auto simp: waiting_ops_def)
  note run = cancel_eq [OF live, of c, unfolded assms(3) option.inject prod.inject]
  have msg: "message_of w' = message_of w" and sel: "selector w' = selector w"
    using run by (auto simp: fun_eq_iff message_of_def selector_def op_selector_def Let_def split: if_splits)
  have stash: "unexpected_msg_stash (queues w') = unexpected_msg_stash ?q"
    "expected_msg_stash (queues w') = expected_msg_stash ?q"
    using run by (auto simp: Let_def split: if_splits)
  have ops: "unexpected_recv_ops (queues w') = remove1 p (unexpected_recv_ops ?q)"
    "expected_recv_ops (queues w') = remove1 p (expected_recv_ops ?q)"
    "pending_rma_ops (queues w') = remove1 p (pending_rma_ops ?q)"
    using run assms(1) by (auto simp: Let_def waiting_ops_def remove1_idem split: if_splits)
  show "unexpected_queue w' = snd (match_step unexpected_matches (Withdraw p) (unexpected_queue w))"
    and "expected_queue w' = snd (match_step expected_matches (Withdraw (p, selector w p)) (expected_queue w))"
    and "pending_rma_ops (queues w') = remove1 p (pending_rma_ops ?q)"
    by (simp_all add: unexpected_queue_def expected_queue_def msg sel stash ops remove1_key)
qed

text \<open>C19: cancelling withdraws an operation from the queue that holds it, and from no other, and
  completes it with the code for a cancelled operation; an operation that no queue holds is
  left alone.\<close>

theorem cancel_withdraws:
  assumes "distinct (waiting_ops w)" and "p \<in> set (waiting_ops w) \<Longrightarrow> op_box w p \<noteq> None"
  shows "\<exists>w'. na_libp2p_cancel c p w = Some (NA_SUCCESS, w') \<and>
    unexpected_queue w' = snd (match_step unexpected_matches (Withdraw p) (unexpected_queue w)) \<and>
    expected_queue w' = snd (match_step expected_matches (Withdraw (p, selector w p)) (expected_queue w)) \<and>
    pending_rma_ops (queues w') = remove1 p (pending_rma_ops (queues w)) \<and>
    (if p \<in> set (waiting_ops w)
     then na_completions w' = na_completions w @ [(c, p)] \<and>
          op_box w' = (op_box w)(p \<mapsto> (the (op_box w p))\<lparr>op_ret := Some NA_CANCELED\<rparr>)
     else w' = w)"
proof -
  obtain w' where run: "na_libp2p_cancel c p w = Some (NA_SUCCESS, w')" using cancel_run [OF assms(2)] by blast
  have "p \<in> set (unexpected_recv_ops (queues w)) \<union> set (expected_recv_ops (queues w))
      \<union> set (pending_rma_ops (queues w)) \<Longrightarrow> op_box w p \<noteq> None"
    using assms(2) by (auto simp: waiting_ops_def)
  note w' = cancel_eq [OF this, of c, unfolded run option.inject prod.inject]
  show ?thesis
    using run w' cancel_queues [OF assms run] by (auto simp: waiting_ops_def Let_def)
qed

section \<open>Concrete runs\<close>

definition example_op :: op_id where
  "example_op =
     \<lparr>op_callback = 0, op_arg = null_ptr, op_type = None, op_ret = None, op_info = NoInfo,
      op_release = None, op_context = null_ptr, op_addr = null_ptr, op_tag = 0,
      op_buf = null_ptr, op_buf_size = 0, op_local_handle_id = 0, op_local_offset = 0, op_rma_length = 0\<rparr>"

text \<open>One stashed message of each kind, and one posted receive of each kind.\<close>

definition stash_state :: "u8 na_state" where
  "stash_state = example_state\<lparr>
     op_box := [10 \<mapsto> example_op],
     addr_box := [5 \<mapsto> fresh_addr 42, 6 \<mapsto> fresh_addr 43, 7 \<mapsto> fresh_addr 43],
     memory := (\<lambda>q. if 100 \<le> q \<and> q < 104 then Some 0 else None), next_box := 20,
     queues := operation_queues_new\<lparr>
       unexpected_msg_stash := [\<lparr>sm_payload = [1, 2, 3, 4, 5, 6], sm_source_addr = 5, sm_tag = 9\<rparr>],
       expected_msg_stash := [\<lparr>sm_payload = [7, 8], sm_source_addr = 6, sm_tag = 3\<rparr>]\<rparr>\<rparr>"

definition posted_state :: "u8 na_state" where
  "posted_state = example_state\<lparr>
     op_box := [10 \<mapsto> unexpected_op 1 0 0 100 4 example_op, 11 \<mapsto> expected_op 1 0 0 100 4 7 3 example_op],
     addr_box := [7 \<mapsto> fresh_addr 43],
     memory := (\<lambda>q. if 100 \<le> q \<and> q < 104 then Some 0 else None), next_box := 20,
     queues := operation_queues_new\<lparr>unexpected_recv_ops := [10], expected_recv_ops := [11]\<rparr>\<rparr>"

lemmas example_queue_defs = queues_ok_def posted_ok_def stashed_ok_def stash_addrs_def buffer_ok_def
  operation_queues_new_def unexpected_op_def expected_op_def region_def

lemma stash_state_ok [simp]: "queues_ok stash_state" "op_box stash_state 10 = Some example_op"
  "buffer_ok 100 4 stash_state" "addr_box stash_state 7 = Some (fresh_addr 43)"
  "expected_recv_ops (queues stash_state) = []" "na_completions stash_state = []"
  "peer_id (fresh_addr p) = p"
  by (simp_all add: stash_state_def example_queue_defs fresh_addr_def)

lemma stash_state_queues:
  "unexpected_queue stash_state = ([], [(42, 9, [1, 2, 3, 4, 5, 6])])"
  "expected_queue stash_state = ([], [(43, 3, [7, 8])])"
  by (simp_all add: unexpected_queue_def expected_queue_def stash_state_def operation_queues_new_def
      message_of_def fresh_addr_def)

lemma posted_state_ok [simp]: "queues_ok posted_state" "addr_box posted_state (next_box posted_state) = None"
  by (simp_all add: posted_state_def example_queue_defs)

lemma posted_state_queues:
  "unexpected_queue posted_state = ([10], [])"
  "expected_queue posted_state = ([(11, 3, Some 43)], [])"
  by (simp_all add: unexpected_queue_def expected_queue_def posted_state_def operation_queues_new_def
      selector_def op_selector_def expected_op_def fresh_addr_def)

theorem recv_expected_refines_witness:
  "\<exists>w'. na_libp2p_msg_recv_expected 1 2 3 100 4 7 3 10 stash_state = Some (NA_SUCCESS, w') \<and>
     expected_queue w' = ([], []) \<and> na_completions w' = [(1, 10)] \<and>
     memory w' = overwrite 100 [7, 8] (memory stash_state) \<and>
     received_expected w' 10 (43, 3, [7, 8])"
  using recv_expected_refines [of stash_state 10 example_op 100 4 7 1 2 3 3]
  by (auto simp: stash_state_queues received_bytes_def source_peer_def)

theorem incoming_expected_refines_witness:
  "\<exists>w'. handle_incoming_msg ((example_header 1)\<lparr>source_peer_id := 43, tag := 3\<rparr>) [1, 2] True posted_state
       = Some w' \<and>
     expected_queue w' = ([], []) \<and> unexpected_queue w' = unexpected_queue posted_state \<and>
     handed_over posted_state w' 11 (43, 3, [1, 2])"
  using incoming_expected_refines [of posted_state "(example_header 1)\<lparr>source_peer_id := 43, tag := 3\<rparr>" "[1, 2]"]
  by (auto simp: posted_state_queues)

definition polling_state :: "u8 na_state" where
  "polling_state = posted_state\<lparr>addr_box := [7 \<mapsto> fresh_addr 43, 8 \<mapsto> fresh_addr 42, 9 \<mapsto> fresh_addr 43],
     queues := operation_queues_new, event_fd := 2,
     completion_rx :=
       [\<lparr>ci_op_ptr = 10, ci_result = NA_SUCCESS,
         ci_recv_info = Some \<lparr>ri_actual_size = 6, ri_source_addr = 8, ri_tag = 9\<rparr>\<rparr>,
        \<lparr>ci_op_ptr = 11, ci_result = NA_SUCCESS,
         ci_recv_info = Some \<lparr>ri_actual_size = 2, ri_source_addr = 9, ri_tag = 3\<rparr>\<rparr>]\<rparr>"

theorem poll_reports_all_witness:
  "\<exists>w'. na_libp2p_poll polling_state = Some (NA_SUCCESS, 2, w') \<and> completion_rx w' = [] \<and>
     event_fd w' = 0 \<and> na_completions w' = [(1, 10), (1, 11)] \<and> addr_box w' 9 = None \<and>
     addr_box w' 8 = Some (fresh_addr 42)"
proof -
  have "completions_ok (completion_rx polling_state) polling_state"
    by (simp add: completions_ok_def polling_state_def posted_state_def freed_sources_def
        unexpected_op_def expected_op_def)
  from poll_reports_all [OF this] show ?thesis
    by (elim ex_forward)
       (simp add: polling_state_def posted_state_def freed_sources_def unexpected_op_def expected_op_def
        restrict_map_def)
qed

theorem cancel_withdraws_witness:
  "\<exists>w'. na_libp2p_cancel 1 11 posted_state = Some (NA_SUCCESS, w') \<and>
     unexpected_queue w' = ([10], []) \<and> expected_queue w' = ([], []) \<and> na_completions w' = [(1, 11)]"
proof -
  have "distinct (waiting_ops posted_state)" "op_box posted_state 11 \<noteq> None"
    "waiting_ops posted_state = [10, 11]" "selector posted_state 11 = (3, Some 43)"
    "na_completions posted_state = []"
    by (simp_all add: waiting_ops_def posted_state_def operation_queues_new_def selector_def op_selector_def
        expected_op_def fresh_addr_def)
  with cancel_withdraws [of posted_state 11 1] show ?thesis
    by (auto simp: posted_state_queues)
qed

end
