(* ===== verification/Rma.thy ===== *)
theory Rma
  imports Serialization Messaging
begin

text \<open>
  One-sided communication (\<^verbatim>\<open>src/src/plugin.rs\<close>, \<^verbatim>\<open>src/src/runtime.rs\<close>): registered memory, put and
  get on the initiator, and the handlers of the three RMA messages. Handlers look the
  registered buffer up by its identifier and clip every access to its size.
\<close>

section \<open>Registered memory\<close>

definition na_libp2p_mem_handle_create ::
  "ptr \<Rightarrow> usize \<Rightarrow> u64 \<Rightarrow> 'pid na_state \<Rightarrow> na_return \<times> ptr \<times> 'pid na_state" where
  "na_libp2p_mem_handle_create buf buf_size flags w =
     (let (id, w) = next_handle_id w;
          handle = \<lparr>mh_buf = buf, mh_buf_size = buf_size, mh_handle_id = id, mh_flags = flags,
                    mh_owner_peer_id = None\<rparr>;
          w = w\<lparr>mem_handles := (mem_handles w)(id \<mapsto>
                  \<lparr>me_buf = buf, me_buf_size = buf_size, me_flags = flags\<rparr>)\<rparr>;
          (p, w) = alloc_mem_handle handle w
      in (NA_SUCCESS, p, w))"

definition na_libp2p_mem_handle_free :: "ptr \<Rightarrow> 'pid na_state \<Rightarrow> 'pid na_state option" where
  "na_libp2p_mem_handle_free mem_handle w =
     (if mem_handle = null_ptr then Some w
      else do {
        handle \<leftarrow> mh_box w mem_handle;
        let w = w\<lparr>mh_box := (mh_box w)(mem_handle := None)\<rparr>;
        Some (if mh_owner_peer_id handle = None
              then w\<lparr>mem_handles := (mem_handles w)(mh_handle_id handle := None)\<rparr>
              else w)
      })"

section \<open>The initiator\<close>

definition remote_peer :: "'pid mem_handle \<Rightarrow> 'pid na_addr \<Rightarrow> 'pid" where
  "remote_peer remote_handle dest =
     (case mh_owner_peer_id remote_handle of Some p \<Rightarrow> p | None \<Rightarrow> peer_id dest)"

text \<open>The data of a put, read from the local buffer at the time of the call.\<close>

definition put_data :: "'pid mem_handle \<Rightarrow> u64 \<Rightarrow> usize \<Rightarrow> 'pid na_state \<Rightarrow> bytes option" where
  "put_data local_handle local_ofs len w =
     (if len > 0 \<and> mh_buf local_handle \<noteq> null_ptr
      then copy_from (mh_buf local_handle + unat local_ofs) (unat len) w
      else Some [])"

definition na_libp2p_put ::
  "ptr \<Rightarrow> nat \<Rightarrow> ptr \<Rightarrow> ptr \<Rightarrow> u64 \<Rightarrow> ptr \<Rightarrow> u64 \<Rightarrow> usize \<Rightarrow> ptr \<Rightarrow> ptr \<Rightarrow> 'pid na_state
     \<Rightarrow> (na_return \<times> 'pid na_state) option" where
  "na_libp2p_put context callback arg local_mem_handle local_ofs remote_mem_handle remote_ofs len
       remote_addr op_id w = do {
     op \<leftarrow> op_box w op_id;
     local_handle \<leftarrow> mh_box w local_mem_handle;
     remote_handle \<leftarrow> mh_box w remote_mem_handle;
     dest \<leftarrow> addr_box w remote_addr;
     let op = op\<lparr>op_callback := callback, op_arg := arg, op_type := Some CB_PUT, op_context := context\<rparr>;
     data \<leftarrow> put_data local_handle local_ofs len w;
     Some (NA_SUCCESS,
       send_cmd (RmaPutCmd (remote_peer remote_handle dest) data (mh_handle_id remote_handle) remote_ofs
           op_id (peer_id (self_addr w)))
         (put_op op_id op w))
   }"

definition na_libp2p_get ::
  "ptr \<Rightarrow> nat \<Rightarrow> ptr \<Rightarrow> ptr \<Rightarrow> u64 \<Rightarrow> ptr \<Rightarrow> u64 \<Rightarrow> usize \<Rightarrow> ptr \<Rightarrow> ptr \<Rightarrow> 'pid na_state
     \<Rightarrow> (na_return \<times> 'pid na_state) option" where
  "na_libp2p_get context callback arg local_mem_handle local_ofs remote_mem_handle remote_ofs len
       remote_addr op_id w = do {
     op \<leftarrow> op_box w op_id;
     local_handle \<leftarrow> mh_box w local_mem_handle;
     remote_handle \<leftarrow> mh_box w remote_mem_handle;
     dest \<leftarrow> addr_box w remote_addr;
     let op = op\<lparr>op_callback := callback, op_arg := arg, op_type := Some CB_GET, op_context := context,
                 op_local_handle_id := mh_handle_id local_handle, op_local_offset := local_ofs,
                 op_rma_length := len\<rparr>;
     let w = put_op op_id op w;
     let w = w\<lparr>queues := (queues w)\<lparr>pending_rma_ops := pending_rma_ops (queues w) @ [op_id]\<rparr>\<rparr>;
     Some (NA_SUCCESS,
       send_cmd (RmaGetRequest (remote_peer remote_handle dest) (mh_handle_id remote_handle) remote_ofs
           len (mh_handle_id local_handle) local_ofs op_id (peer_id (self_addr w))) w)
   }"

section \<open>The handlers\<close>

text \<open>How many of \<open>n\<close> bytes at an offset lie inside a registered buffer.\<close>

definition clip_len :: "mem_handle_entry \<Rightarrow> u64 \<Rightarrow> nat \<Rightarrow> nat" where
  "clip_len entry ofs n = min n (unat (saturating_sub (me_buf_size entry) ofs))"

definition rma_write :: "mem_handle_entry \<Rightarrow> u64 \<Rightarrow> bytes \<Rightarrow> 'pid na_state \<Rightarrow> 'pid na_state option" where
  "rma_write entry ofs payload w =
     (let copy_len = clip_len entry ofs (length payload) in
      if copy_len > 0 then copy_to (me_buf entry + unat ofs) (take copy_len payload) w else Some w)"

definition handle_rma_put :: "'pid wire_header \<Rightarrow> bytes \<Rightarrow> 'pid na_state \<Rightarrow> 'pid na_state option" where
  "handle_rma_put header payload w =
     (case mem_handles w (handle_id header) of
        Some entry \<Rightarrow> rma_write entry (offset header) payload w
      | None \<Rightarrow> Some w)"

text \<open>The bytes a get request reads; the inner \<^const>\<open>None\<close> is an unknown handle.\<close>

definition rma_read :: "'pid wire_header \<Rightarrow> 'pid na_state \<Rightarrow> bytes option option" where
  "rma_read header w =
     (case mem_handles w (handle_id header) of
        Some entry \<Rightarrow>
          (let len = clip_len entry (offset header) (unat (rma_length header)) in
           if len > 0 then map_option Some (copy_from (me_buf entry + unat (offset header)) len w)
           else Some (Some []))
      | None \<Rightarrow> Some None)"

text \<open>The answer to a get request: nothing at all for an unknown handle.\<close>

definition rma_get_reply ::
  "'pid wire_header \<Rightarrow> 'pid na_state \<Rightarrow> ('pid wire_header \<times> bytes) option option" where
  "rma_get_reply header w = do {
     answer \<leftarrow> rma_read header w;
     Some (map_option (\<lambda>data.
       (\<lparr>msg_type = RmaGetResp, tag = 0, payload_size = of_nat (length data),
         source_peer_id = peer_id (self_addr w), handle_id = handle_id header, offset = offset header,
         rma_length = of_nat (length data), local_handle_id = local_handle_id header,
         local_offset = local_offset header\<rparr>, data)) answer)
   }"

definition rma_op_match :: "'pid wire_header \<Rightarrow> 'pid na_state \<Rightarrow> ptr \<Rightarrow> bool option" where
  "rma_op_match header w op_ptr = do {
     op \<leftarrow> op_box w op_ptr;
     Some (op_local_handle_id op = local_handle_id header \<and> op_local_offset op = local_offset header)
   }"

definition handle_rma_get_response ::
  "'pid wire_header \<Rightarrow> bytes \<Rightarrow> 'pid na_state \<Rightarrow> 'pid na_state option" where
  "handle_rma_get_response header payload w = do {
     let ops = pending_rma_ops (queues w);
     matched_idx \<leftarrow> position_m (rma_op_match header w) ops;
     case matched_idx of
       Some idx \<Rightarrow> do {
         let op_ptr = ops ! idx;
         let w = w\<lparr>queues := (queues w)\<lparr>pending_rma_ops := remove_at idx ops\<rparr>\<rparr>;
         w \<leftarrow> (case mem_handles w (local_handle_id header) of
                 Some entry \<Rightarrow> rma_write entry (local_offset header) payload w
               | None \<Rightarrow> Some w);
         Some (send_completion \<lparr>ci_op_ptr = op_ptr, ci_result = NA_SUCCESS, ci_recv_info = None\<rparr> w)
       }
     | None \<Rightarrow> Some w
   }"

section \<open>Registered buffers are allocated\<close>

definition handles_ok :: "'pid na_state \<Rightarrow> bool" where
  "handles_ok w \<longleftrightarrow>
     (\<forall>id e. mem_handles w id = Some e \<longrightarrow> region (me_buf e) (unat (me_buf_size e)) (memory w))"

text \<open>Identifiers are handed out in order: those in use are below the next one.\<close>

definition ids_ok :: "'pid na_state \<Rightarrow> bool" where
  "ids_ok w \<longleftrightarrow> (\<forall>id. mem_handles w id \<noteq> None \<longrightarrow> id < next_mem_handle_id w)"

lemma clip_len_bound: "0 < clip_len e ofs n \<Longrightarrow> unat ofs + clip_len e ofs n \<le> unat (me_buf_size e)"
  by (auto simp: clip_len_def)

lemma rma_write_eq:
  assumes "region (me_buf e) (unat (me_buf_size e)) (memory w)"
  shows "rma_write e ofs payload w
    = Some (w\<lparr>memory := overwrite (me_buf e + unat ofs)
          (take (clip_len e ofs (length payload)) payload) (memory w)\<rparr>)"
proof (cases "clip_len e ofs (length payload) > 0")
  case True
  let ?d = "take (clip_len e ofs (length payload)) payload"
  have len: "length ?d = clip_len e ofs (length payload)" by (simp add: clip_len_def)
  have "region (me_buf e + unat ofs) (length ?d) (memory w)"
    using clip_len_bound [OF True] unfolding len
    by (intro mem.valid_mono [OF assms]) simp_all
  from store_bytes_overwrite [OF this] True show ?thesis
    by (simp add: rma_write_def copy_to_def)
next
  case False
  then show ?thesis by (cases w) (simp add: rma_write_def)
qed

text \<open>A clipped write stays inside the registered buffer.\<close>

lemma overwrite_clipped:
  assumes "q < me_buf e \<or> me_buf e + unat (me_buf_size e) \<le> q"
  shows "overwrite (me_buf e + unat ofs) (take (clip_len e ofs (length payload)) payload) m q = m q"
proof (cases "clip_len e ofs (length payload) > 0")
  case True
  have "length (take (clip_len e ofs (length payload)) payload) = clip_len e ofs (length payload)"
    by (simp add: clip_len_def)
  with assms clip_len_bound [OF True] show ?thesis by (intro overwrite_outside) auto
next
  case False
  then show ?thesis by simp
qed

lemma copy_from_total:
  assumes "region p n (memory w)"
  obtains bs where "copy_from p n w = Some bs" "length bs = n"
  using mem.load_total [OF assms order_refl] by (auto simp: copy_from_def)

lemma rma_read_eq:
  assumes "handles_ok w"
  shows "rma_read h w = Some (case mem_handles w (handle_id h) of
     None \<Rightarrow> None
   | Some e \<Rightarrow> copy_from (me_buf e + unat (offset h)) (clip_len e (offset h) (unat (rma_length h))) w)"
proof (cases "mem_handles w (handle_id h)")
  case None
  then show ?thesis by (simp add: rma_read_def)
next
  case (Some e)
  let ?n = "clip_len e (offset h) (unat (rma_length h))"
  have reg: "region (me_buf e) (unat (me_buf_size e)) (memory w)"
    using assms Some by (simp add: handles_ok_def)
  show ?thesis
  proof (cases "?n > 0")
    case True
    have "region (me_buf e + unat (offset h)) ?n (memory w)"
      using clip_len_bound [OF True] by (intro mem.valid_mono [OF reg]) simp_all
    then obtain bs where "copy_from (me_buf e + unat (offset h)) ?n w = Some bs"
      by (rule copy_from_total)
    with Some True show ?thesis by (simp add: rma_read_def Let_def)
  next
    case False
    with Some show ?thesis by (simp add: rma_read_def copy_from_def)
  qed
qed

section \<open>Properties of the handlers\<close>

text \<open>C36: a put is defined for every message, puts the payload at the requested offset of the
  registered buffer as far as it fits, and changes no other byte of memory and nothing else
  of the state; a put to an unknown handle does nothing.\<close>

theorem rma_put_in_bounds:
  assumes "handles_ok w"
  shows "\<exists>m. handle_rma_put h payload w = Some (w\<lparr>memory := m\<rparr>) \<and>
    (case mem_handles w (handle_id h) of
       None \<Rightarrow> m = memory w
     | Some e \<Rightarrow>
         (let n = min (length payload) (unat (me_buf_size e) - unat (offset h));
              dst = me_buf e + unat (offset h) in
          load_bytes dst n m = Some (take n payload) \<and>
          (\<forall>q. q < dst \<or> dst + n \<le> q \<longrightarrow> m q = memory w q) \<and>
          (\<forall>q. q < me_buf e \<or> me_buf e + unat (me_buf_size e) \<le> q \<longrightarrow> m q = memory w q)))"
proof (cases "mem_handles w (handle_id h)")
  case None
  then show ?thesis by (intro exI [of _ "memory w"]) (simp add: handle_rma_put_def)
next
  case (Some e)
  let ?n = "clip_len e (offset h) (length payload)"
  let ?m = "overwrite (me_buf e + unat (offset h)) (take ?n payload) (memory w)"
  have n: "?n = min (length payload) (unat (me_buf_size e) - unat (offset h))" "length (take ?n payload) = ?n"
    by (simp_all add: clip_len_def)
  have "region (me_buf e) (unat (me_buf_size e)) (memory w)"
    using assms Some by (simp add: handles_ok_def)
  then have "handle_rma_put h payload w = Some (w\<lparr>memory := ?m\<rparr>)"
    using Some by (simp add: handle_rma_put_def rma_write_eq)
  moreover have "load_bytes (me_buf e + unat (offset h)) ?n ?m = Some (take ?n payload)"
    using load_overwrite [of _ "take ?n payload"] by (simp only: n(2))
  moreover have "?m q = memory w q"
    if "q < me_buf e + unat (offset h) \<or> me_buf e + unat (offset h) + ?n \<le> q" for q
    using that by (intro overwrite_outside) (simp only: n(2))
  ultimately show ?thesis
    using Some overwrite_clipped by (intro exI [of _ ?m]) (simp add: n(1) [symmetric])
qed

text \<open>A known handle is read, inside its buffer.\<close>

lemma rma_read_known:
  assumes "handles_ok w" and "mem_handles w (handle_id h) = Some e"
  obtains data where "rma_read h w = Some (Some data)"
    and "length data = min (unat (rma_length h)) (unat (me_buf_size e) - unat (offset h))"
    and "load_bytes (me_buf e + unat (offset h)) (length data) (memory w) = Some data"
proof -
  let ?n = "clip_len e (offset h) (unat (rma_length h))"
  have n: "?n = min (unat (rma_length h)) (unat (me_buf_size e) - unat (offset h))"
    by (simp add: clip_len_def)
  have reg: "region (me_buf e) (unat (me_buf_size e)) (memory w)"
    using assms by (simp add: handles_ok_def)
  have "region (me_buf e + unat (offset h)) ?n (memory w)"
  proof (cases "?n > 0")
    case True
    from clip_len_bound [OF True] show ?thesis by (intro mem.valid_mono [OF reg]) simp_all
  next
    case False
    then have "?n = 0" by simp
    then show ?thesis by (auto simp: region_def)
  qed
  then obtain data where data: "copy_from (me_buf e + unat (offset h)) ?n w = Some data" "length data = ?n"
    by (rule copy_from_total)
  then have "load_bytes (me_buf e + unat (offset h)) (length data) (memory w) = Some data"
    by (simp add: copy_from_def)
  with data assms(2) show thesis by (intro that [of data]) (simp_all add: rma_read_eq [OF assms(1)] n)
qed

text \<open>A get request to a known handle is always answered, with exactly the bytes of the
  registered buffer from the requested offset on, cut to the requested length and the end of
  the buffer, and the answer carries the destination that the request named.\<close>

lemma rma_get_reply_reads:
  assumes "handles_ok w" and "mem_handles w (handle_id h) = Some e"
  shows "\<exists>resp data. rma_get_reply h w = Some (Some (resp, data)) \<and>
    length data = min (unat (rma_length h)) (unat (me_buf_size e) - unat (offset h)) \<and>
    load_bytes (me_buf e + unat (offset h)) (length data) (memory w) = Some data \<and>
    msg_type resp = RmaGetResp \<and> local_handle_id resp = local_handle_id h \<and>
    local_offset resp = local_offset h \<and> source_peer_id resp = peer_id (self_addr w)"
proof -
  from rma_read_known [OF assms] obtain data where "rma_read h w = Some (Some data)"
    "length data = min (unat (rma_length h)) (unat (me_buf_size e) - unat (offset h))"
    "load_bytes (me_buf e + unat (offset h)) (length data) (memory w) = Some data" by blast
  then show ?thesis by (simp add: rma_get_reply_def)
qed

text \<open>A get request to an unknown handle gets no answer at all: neither data nor an error
  goes back to the initiator, whose operation stays pending.\<close>

lemma rma_get_unknown_unanswered:
  assumes "mem_handles w (handle_id h) = None"
  shows "rma_get_reply h w = Some None"
  using assms by (simp add: rma_get_reply_def rma_read_def)

section \<open>Get responses\<close>

definition rma_op_of :: "'pid wire_header \<Rightarrow> op_id \<Rightarrow> bool" where
  "rma_op_of h op \<longleftrightarrow>
     op_local_handle_id op = local_handle_id h \<and> op_local_offset op = local_offset h"

definition rma_index :: "'pid wire_header \<Rightarrow> 'pid na_state \<Rightarrow> nat option" where
  "rma_index h w = position (\<lambda>p. rma_op_of h (the (op_box w p))) (pending_rma_ops (queues w))"

lemma get_response_eq:
  assumes "handles_ok w" and "set (pending_rma_ops (queues w)) \<subseteq> dom (op_box w)"
  shows "handle_rma_get_response h payload w = Some
    (case rma_index h w of
       None \<Rightarrow> w
     | Some i \<Rightarrow>
         send_completion \<lparr>ci_op_ptr = pending_rma_ops (queues w) ! i, ci_result = NA_SUCCESS, ci_recv_info = None\<rparr>
           (w\<lparr>queues := (queues w)\<lparr>pending_rma_ops := remove_at i (pending_rma_ops (queues w))\<rparr>,
              memory := (case mem_handles w (local_handle_id h) of
                 None \<Rightarrow> memory w
               | Some e \<Rightarrow> overwrite (me_buf e + unat (local_offset h))
                   (take (clip_len e (local_offset h) (length payload)) payload) (memory w))\<rparr>))"
proof -
  let ?ops = "pending_rma_ops (queues w)"
  have "rma_op_match h w p = Some (rma_op_of h (the (op_box w p)))" if "p \<in> set ?ops" for p
    using assms(2) that by (auto simp: rma_op_match_def rma_op_of_def)
  then have idx: "position_m (rma_op_match h w) ?ops = Some (rma_index h w)"
    unfolding rma_index_def by (rule position_m_total)
  show ?thesis
  proof (cases "rma_index h w")
    case None
    with idx show ?thesis by (simp add: handle_rma_get_response_def)
  next
    case (Some i)
    show ?thesis
    proof (cases "mem_handles w (local_handle_id h)")
      case None
      with Some idx show ?thesis by (cases w) (simp add: handle_rma_get_response_def Let_def)
    next
      case (Some e)
      with assms(1) have "region (me_buf e) (unat (me_buf_size e)) (memory w)" by (simp add: handles_ok_def)
      with Some idx \<open>rma_index h w = Some i\<close> show ?thesis
        by (simp add: handle_rma_get_response_def rma_write_eq Let_def)
    qed
  qed
qed

text \<open>A get response completes the oldest pending get that named its destination: the
  operation leaves the pending queue, its completion enters the channel, and the bytes are
  in the local registered buffer as far as they fit, with every byte outside that buffer
  unchanged; a response that no pending get named changes nothing.\<close>

lemma rma_get_response_completes:
  assumes "handles_ok w" and "set (pending_rma_ops (queues w)) \<subseteq> dom (op_box w)"
  shows "\<exists>w'. handle_rma_get_response h payload w = Some w' \<and>
    (case rma_index h w of
       None \<Rightarrow> w' = w
     | Some i \<Rightarrow>
         pending_rma_ops (queues w') = remove_at i (pending_rma_ops (queues w)) \<and>
         completion_rx w' = completion_rx w @
           [\<lparr>ci_op_ptr = pending_rma_ops (queues w) ! i, ci_result = NA_SUCCESS, ci_recv_info = None\<rparr>] \<and>
         (case mem_handles w (local_handle_id h) of
            None \<Rightarrow> memory w' = memory w
          | Some e \<Rightarrow>
              (let n = min (length payload) (unat (me_buf_size e) - unat (local_offset h)) in
               load_bytes (me_buf e + unat (local_offset h)) n (memory w') = Some (take n payload) \<and>
               (\<forall>q. q < me_buf e \<or> me_buf e + unat (me_buf_size e) \<le> q \<longrightarrow> memory w' q = memory w q))))"
proof (cases "rma_index h w")
  case None
  with get_response_eq [OF assms] show ?thesis by simp
next
  case (Some i)
  show ?thesis
  proof (cases "mem_handles w (local_handle_id h)")
    case None
    with Some get_response_eq [OF assms] show ?thesis by simp
  next
    case e: (Some e)
    let ?n = "clip_len e (local_offset h) (length payload)"
    have n: "?n = min (length payload) (unat (me_buf_size e) - unat (local_offset h))"
      "length (take ?n payload) = ?n" by (simp_all add: clip_len_def)
    have "load_bytes p ?n (overwrite p (take ?n payload) (memory w)) = Some (take ?n payload)" for p
      using load_overwrite [of p "take ?n payload"] by (simp only: n(2))
    with Some e get_response_eq [OF assms, of h payload] overwrite_clipped show ?thesis
      by (simp add: n(1) [symmetric] Let_def)
  qed
qed

section \<open>Registration\<close>

text \<open>Registering memory gives it an identifier that no registered buffer has, as long as
  the 64-bit counter has not reached its end, keeps the identifiers in order, and freeing
  the handle takes exactly this registration back.\<close>

lemma mem_handle_create_free:
  assumes "ids_ok w" and "next_mem_handle_id w \<noteq> - 1" and "next_box w \<noteq> null_ptr" and "mh_box w (next_box w) = None"
  shows "\<exists>p w' w''. na_libp2p_mem_handle_create buf n flags w = (NA_SUCCESS, p, w') \<and>
    mem_handles w (next_mem_handle_id w) = None \<and>
    mem_handles w' = (mem_handles w)(next_mem_handle_id w \<mapsto>
      \<lparr>me_buf = buf, me_buf_size = n, me_flags = flags\<rparr>) \<and>
    mh_box w' p = Some \<lparr>mh_buf = buf, mh_buf_size = n, mh_handle_id = next_mem_handle_id w,
      mh_flags = flags, mh_owner_peer_id = None\<rparr> \<and>
    ids_ok w' \<and>
    na_libp2p_mem_handle_free p w' = Some w'' \<and>
    mem_handles w'' = mem_handles w \<and> mh_box w'' = mh_box w"
proof -
  let ?id = "next_mem_handle_id w"
  have "1 + ?id \<noteq> 0" using assms(2) by (metis add.commute add_eq_0_iff)
  then have "unat (?id + 1) = Suc (unat ?id)" by (metis add.commute unatSuc)
  then have lt: "id < ?id \<Longrightarrow> id < ?id + 1" and top: "?id < ?id + 1" for id
    by (simp_all add: word_less_nat_alt)
  have free: "mem_handles w ?id = None"
    using assms(1) by (auto simp: ids_ok_def)
  have "ids_ok (snd (snd (na_libp2p_mem_handle_create buf n flags w)))"
    using assms(1) lt top
    by (auto simp: ids_ok_def na_libp2p_mem_handle_create_def next_handle_id_def alloc_mem_handle_def)
  moreover have "(mem_handles w)(?id := None) = mem_handles w" "(mh_box w)(next_box w := None) = mh_box w"
    using free assms(4) by (auto simp: fun_upd_idem)
  ultimately show ?thesis
    using free assms(3)
    by (simp add: na_libp2p_mem_handle_create_def na_libp2p_mem_handle_free_def next_handle_id_def
        alloc_mem_handle_def)
qed

section \<open>Concrete runs\<close>

text \<open>A registered buffer of sixteen bytes and one pending get into its last four bytes.\<close>

definition rma_entry :: mem_handle_entry where
  "rma_entry = \<lparr>me_buf = 100, me_buf_size = 16, me_flags = 1\<rparr>"

definition rma_state :: "u8 na_state" where
  "rma_state = example_state\<lparr>
     op_box := [10 \<mapsto> example_op\<lparr>op_local_handle_id := 3, op_local_offset := 12\<rparr>],
     memory := (\<lambda>q. if 100 \<le> q \<and> q < 116 then Some 9 else None), next_box := 20,
     mem_handles := [3 \<mapsto> rma_entry], next_mem_handle_id := 4,
     queues := operation_queues_new\<lparr>pending_rma_ops := [10]\<rparr>\<rparr>"

definition rma_header :: "u8 wire_header" where
  "rma_header = (example_header 0)\<lparr>handle_id := 3, offset := 12, rma_length := 8,
     local_handle_id := 3, local_offset := 12\<rparr>"

lemma rma_state_simps [simp]:
  "handles_ok rma_state" "ids_ok rma_state" "mem_handles rma_state = [3 \<mapsto> rma_entry]"
  "next_box rma_state = 20" "mh_box rma_state = Map.empty" "next_mem_handle_id rma_state = 4"
  "op_box rma_state = [10 \<mapsto> example_op\<lparr>op_local_handle_id := 3, op_local_offset := 12\<rparr>]"
  "pending_rma_ops (queues rma_state) = [10]" "completion_rx rma_state = []"
  by (auto simp: rma_state_def handles_ok_def ids_ok_def region_def rma_entry_def split: if_splits)

lemma rma_entry_simps [simp]: "me_buf rma_entry = 100" "me_buf_size rma_entry = 16"
  by (simp_all add: rma_entry_def)

lemma rma_header_simps [simp]:
  "handle_id rma_header = 3" "offset rma_header = 12" "rma_length rma_header = 8"
  "local_handle_id rma_header = 3" "local_offset rma_header = 12"
  by (simp_all add: rma_header_def)

theorem rma_put_in_bounds_witness:
  "\<exists>m. handle_rma_put rma_header [1, 2, 3, 4, 5, 6] rma_state = Some (rma_state\<lparr>memory := m\<rparr>) \<and>
     load_bytes 112 (length ([1, 2, 3, 4] :: bytes)) m = Some [1, 2, 3, 4] \<and>
     (\<forall>q. q < 100 \<or> 116 \<le> q \<longrightarrow> m q = memory rma_state q)"
  using rma_put_in_bounds [OF rma_state_simps(1), of rma_header "[1, 2, 3, 4, 5, 6]"]
  by (elim ex_forward) (simp add: Let_def del: load_bytes.simps)

end
