(* ===== verification/Ownership.thy ===== *)
theory Ownership
  imports Rma
begin

text \<open>
  The invariant of one plugin instance: who owns the boxes of the heap. Live boxes lie below
  the next free one, posted receives and registered buffers are in place, and the source
  addresses of stashed messages and of completions in the channel belong to the plugin, each
  to one of them. The lemmas say how the elementary changes of the state keep it.
\<close>

section \<open>The invariant\<close>

definition heap_ok :: "'pid na_state \<Rightarrow> bool" where
  "heap_ok w \<longleftrightarrow> 0 < next_box w \<and>
     (\<forall>p\<in>dom (op_box w) \<union> dom (addr_box w) \<union> dom (mh_box w). 0 < p \<and> p < next_box w)"

text \<open>The source addresses of the completions in the channel.\<close>

definition item_source :: "completion_item \<Rightarrow> ptr list" where
  "item_source c = (case ci_recv_info c of None \<Rightarrow> [] | Some ri \<Rightarrow> [ri_source_addr ri])"

definition channel_sources :: "'pid na_state \<Rightarrow> ptr list" where
  "channel_sources w = concat (map item_source (completion_rx w))"

definition owned_addrs :: "'pid na_state \<Rightarrow> ptr list" where
  "owned_addrs w = stash_addrs w @ channel_sources w"

definition recv_ops :: "'pid na_state \<Rightarrow> ptr set" where
  "recv_ops w = set (unexpected_recv_ops (queues w)) \<union> set (expected_recv_ops (queues w))"

text \<open>The addresses that posted receives filter on; they belong to the client.\<close>

definition filter_addrs :: "'pid na_state \<Rightarrow> ptr set" where
  "filter_addrs w = (\<lambda>p. op_addr (the (op_box w p))) ` recv_ops w"

definition posted_all :: "'pid na_state \<Rightarrow> bool" where
  "posted_all w \<longleftrightarrow>
     (\<forall>p\<in>set (unexpected_recv_ops (queues w)). posted_ok CB_RECV_UNEXPECTED w p) \<and>
     (\<forall>p\<in>set (expected_recv_ops (queues w)). posted_ok CB_RECV_EXPECTED w p)"

definition owned_ok :: "'pid na_state \<Rightarrow> bool" where
  "owned_ok w \<longleftrightarrow> distinct (owned_addrs w) \<and> set (owned_addrs w) \<subseteq> dom (addr_box w) \<and>
     set (owned_addrs w) \<inter> filter_addrs w = {}"

definition na_inv :: "'pid na_state \<Rightarrow> bool" where
  "na_inv w \<longleftrightarrow> heap_ok w \<and> posted_all w \<and> owned_ok w \<and> handles_ok w"

lemma heap_fresh:
  assumes "heap_ok w"
  shows "op_box w (next_box w) = None" "addr_box w (next_box w) = None" "mh_box w (next_box w) = None"
  using assms by (fastforce simp: heap_ok_def dom_def)+

lemma heap_not_null:
  assumes "heap_ok w"
  shows "op_box w 0 = None" "addr_box w 0 = None" "mh_box w 0 = None"
  using assms by (fastforce simp: heap_ok_def dom_def)+

lemma na_invD:
  assumes "na_inv w"
  shows "heap_ok w" "posted_all w" "owned_ok w" "handles_ok w"
  using assms by (simp_all add: na_inv_def)

lemma null_not_owned:
  assumes "na_inv w"
  shows "0 \<notin> set (owned_addrs w)"
  using na_invD(3) [OF assms] heap_not_null(2) [OF na_invD(1) [OF assms]]
  by (auto simp: owned_ok_def)

lemma owned_addrs_op_box [simp]: "owned_addrs (w\<lparr>op_box := b\<rparr>) = owned_addrs w"
  by (simp add: owned_addrs_def stash_addrs_def channel_sources_def)

text \<open>The invariant gives what the two-sided operations ask of the queues.\<close>

lemma na_inv_queues_ok:
  assumes "na_inv w"
  shows "queues_ok w"
proof -
  note inv = na_invD [OF assms]
  have "stashed_ok w m" if "sm_source_addr m \<in> set (stash_addrs w)" for m
  proof -
    from that inv(3) have "sm_source_addr m \<in> dom (addr_box w)"
      by (auto simp: owned_ok_def owned_addrs_def)
    with heap_not_null(2) [OF inv(1)] show ?thesis by (cases "sm_source_addr m = 0") (auto simp: stashed_ok_def)
  qed
  moreover have "distinct (stash_addrs w)" using inv(3) by (simp add: owned_ok_def owned_addrs_def)
  ultimately show ?thesis
    using inv(2,3)
    by (auto simp: queues_ok_def posted_all_def stash_addrs_def owned_ok_def owned_addrs_def filter_addrs_def
        recv_ops_def)
qed

section \<open>Changes the invariant does not see\<close>

text \<open>What the invariant looks at.\<close>

definition na_view where
  "na_view w = (op_box w, addr_box w, mh_box w, memory w, next_box w, mem_handles w, queues w,
     channel_sources w)"

lemma na_inv_view: "na_view w' = na_view w \<Longrightarrow> na_inv w' = na_inv w"
  by (simp add: na_view_def na_inv_def heap_ok_def posted_all_def owned_ok_def handles_ok_def owned_addrs_def
      filter_addrs_def recv_ops_def stash_addrs_def posted_ok_def buffer_ok_def cong: option.case_cong)

lemma na_view_simps [simp]:
  "na_view (w\<lparr>cmd_tx := a\<rparr>) = na_view w"
  "na_view (w\<lparr>cmd_closed := b\<rparr>) = na_view w"
  "na_view (w\<lparr>next_chan := c\<rparr>) = na_view w"
  "na_view (w\<lparr>event_fd := d\<rparr>) = na_view w"
  "na_view (w\<lparr>next_mem_handle_id := e\<rparr>) = na_view w"
  "na_view (w\<lparr>na_completions := f\<rparr>) = na_view w"
  "na_view (send_cmd g w) = na_view w"
  by (simp_all add: na_view_def channel_sources_def send_cmd_def)

lemma na_inv_simps [simp]:
  "na_inv (w\<lparr>cmd_tx := a\<rparr>) = na_inv w"
  "na_inv (w\<lparr>cmd_closed := b\<rparr>) = na_inv w"
  "na_inv (w\<lparr>next_chan := c\<rparr>) = na_inv w"
  "na_inv (w\<lparr>event_fd := d\<rparr>) = na_inv w"
  "na_inv (w\<lparr>next_mem_handle_id := e\<rparr>) = na_inv w"
  "na_inv (w\<lparr>na_completions := f\<rparr>) = na_inv w"
  "na_inv (send_cmd g w) = na_inv w"
  by (rule na_inv_view; simp)+

section \<open>The frame of a change\<close>

text \<open>
  A change that posts no receive and takes no address over keeps the invariant if it leaves
  alone what the remaining receives and owners use.
\<close>

lemma na_inv_frame:
  assumes "na_inv w" and "heap_ok w'" and "handles_ok w'"
    and "set (unexpected_recv_ops (queues w')) \<subseteq> set (unexpected_recv_ops (queues w))"
    and "set (expected_recv_ops (queues w')) \<subseteq> set (expected_recv_ops (queues w))"
    and "distinct (owned_addrs w')" and "set (owned_addrs w') \<subseteq> set (owned_addrs w)"
    and op: "\<And>p. p \<in> recv_ops w' \<Longrightarrow> op_box w' p = op_box w p"
    and mem: "\<And>p op. p \<in> recv_ops w' \<Longrightarrow> op_box w p = Some op \<Longrightarrow>
           buffer_ok (op_buf op) (op_buf_size op) w \<Longrightarrow> buffer_ok (op_buf op) (op_buf_size op) w'"
    and addr: "\<And>a. a \<in> set (owned_addrs w') \<union> filter_addrs w' \<Longrightarrow> addr_box w a \<noteq> None \<Longrightarrow> addr_box w' a \<noteq> None"
  shows "na_inv w'"
proof -
  note inv = na_invD [OF assms(1)]
  have filter: "filter_addrs w' \<subseteq> filter_addrs w"
    using assms(4,5) op by (fastforce simp: filter_addrs_def recv_ops_def)
  have mono: "posted_ok t w' p" if "posted_ok t w p" "p \<in> recv_ops w'" for t p
    using that op [of p] mem [of p] addr
    by (fastforce simp: posted_ok_def filter_addrs_def image_iff split: option.splits)
  have "posted_all w'"
    using inv(2) assms(4,5) mono by (auto simp: posted_all_def recv_ops_def)
  moreover have "set (owned_addrs w') \<subseteq> dom (addr_box w')"
    using inv(3) assms(7) addr by (fastforce simp: owned_ok_def)
  then have "owned_ok w'"
    using inv(3) assms(6,7) filter by (auto simp: owned_ok_def)
  ultimately show ?thesis using assms(2,3) by (simp add: na_inv_def)
qed

lemmas na_parts = owned_addrs_def stash_addrs_def channel_sources_def filter_addrs_def recv_ops_def

section \<open>Heap and memory\<close>

text \<open>Changing an operation that waits in no receive queue.\<close>

lemma na_inv_put_op:
  assumes "na_inv w" and "p \<in> dom (op_box w)" and "p \<notin> recv_ops w"
  shows "na_inv (w\<lparr>op_box := (op_box w)(p \<mapsto> op)\<rparr>)"
proof (rule na_inv_frame [OF assms(1)])
  note inv = na_invD [OF assms(1)]
  show "heap_ok (w\<lparr>op_box := (op_box w)(p \<mapsto> op)\<rparr>)"
    using inv(1) assms(2) by (auto simp: heap_ok_def)
qed (use na_invD [OF assms(1)] assms(3) in \<open>auto simp: na_parts owned_ok_def handles_ok_def buffer_ok_def\<close>)

lemma na_inv_op_destroy:
  assumes "na_inv w" and "p \<notin> recv_ops w"
  shows "na_inv (w\<lparr>op_box := (op_box w)(p := None)\<rparr>)"
  by (rule na_inv_frame [OF assms(1)])
     (use na_invD [OF assms(1)] assms(2) in
       \<open>auto simp: na_parts owned_ok_def handles_ok_def heap_ok_def buffer_ok_def\<close>)

lemma recv_ops_live:
  assumes "na_inv w" and "p \<in> recv_ops w"
  shows "p \<in> dom (op_box w)"
  using na_invD(2) [OF assms(1)] assms(2)
  by (fastforce simp: posted_all_def posted_ok_def recv_ops_def split: option.splits)

lemma na_inv_op_create:
  assumes "na_inv w"
  shows "na_inv (snd (na_libp2p_op_create w))"
proof (rule na_inv_frame [OF assms])
  show "heap_ok (snd (na_libp2p_op_create w))"
    using na_invD(1) [OF assms] by (auto simp: heap_ok_def na_libp2p_op_create_def Let_def less_SucI)
  show "op_box (snd (na_libp2p_op_create w)) p = op_box w p"
    if "p \<in> recv_ops (snd (na_libp2p_op_create w))" for p
    using that recv_ops_live [OF assms, of p] heap_fresh(1) [OF na_invD(1) [OF assms]]
    by (auto simp: recv_ops_def na_libp2p_op_create_def Let_def)
qed (use na_invD [OF assms] in
      \<open>auto simp: na_parts owned_ok_def handles_ok_def buffer_ok_def na_libp2p_op_create_def Let_def\<close>)

text \<open>A new address belongs to the client.\<close>

lemma na_inv_alloc_addr:
  assumes "na_inv w"
  shows "na_inv (snd (alloc_addr a w))"
  by (rule na_inv_frame [OF assms])
     (use na_invD [OF assms] in
       \<open>auto simp: na_parts owned_ok_def handles_ok_def heap_ok_def buffer_ok_def alloc_addr_def less_SucI\<close>)

lemma na_inv_free_addr:
  assumes "na_inv w" and "p \<notin> set (owned_addrs w)" and "p \<notin> filter_addrs w"
  shows "na_inv (w\<lparr>addr_box := (addr_box w)(p := None)\<rparr>)"
  by (rule na_inv_frame [OF assms(1)])
     (use na_invD [OF assms(1)] assms(2,3) in
       \<open>auto simp: na_parts owned_ok_def handles_ok_def heap_ok_def buffer_ok_def\<close>)

lemma na_inv_alloc_mem_handle:
  assumes "na_inv w"
  shows "na_inv (snd (alloc_mem_handle h w))"
  by (rule na_inv_frame [OF assms])
     (use na_invD [OF assms] in
       \<open>auto simp: na_parts owned_ok_def handles_ok_def heap_ok_def buffer_ok_def alloc_mem_handle_def less_SucI\<close>)

lemma na_inv_mh_box_del:
  assumes "na_inv w"
  shows "na_inv (w\<lparr>mh_box := (mh_box w)(p := None)\<rparr>)"
  by (rule na_inv_frame [OF assms])
     (use na_invD [OF assms] in
       \<open>auto simp: na_parts owned_ok_def handles_ok_def heap_ok_def buffer_ok_def\<close>)

lemma na_inv_register:
  assumes "na_inv w" and "case e of None \<Rightarrow> True | Some e \<Rightarrow> region (me_buf e) (unat (me_buf_size e)) (memory w)"
  shows "na_inv (w\<lparr>mem_handles := (mem_handles w)(hid := e)\<rparr>)"
  by (rule na_inv_frame [OF assms(1)])
     (use na_invD [OF assms(1)] assms(2) in
       \<open>auto simp: na_parts owned_ok_def handles_ok_def heap_ok_def buffer_ok_def\<close>)

text \<open>Memory may change as long as posted and registered buffers stay allocated.\<close>

definition buffers_kept :: "(ptr \<rightharpoonup> u8) \<Rightarrow> 'pid na_state \<Rightarrow> bool" where
  "buffers_kept m w \<longleftrightarrow>
     (\<forall>p\<in>recv_ops w. \<forall>op. op_box w p = Some op \<longrightarrow> op_buf op \<noteq> null_ptr \<longrightarrow>
        region (op_buf op) (unat (op_buf_size op)) m) \<and>
     (\<forall>hid e. mem_handles w hid = Some e \<longrightarrow> region (me_buf e) (unat (me_buf_size e)) m)"

lemma na_inv_memory:
  assumes "na_inv w" and "buffers_kept m w"
  shows "na_inv (w\<lparr>memory := m\<rparr>)"
  by (rule na_inv_frame [OF assms(1)])
     (use na_invD [OF assms(1)] assms(2) in
       \<open>auto simp: na_parts owned_ok_def handles_ok_def heap_ok_def buffer_ok_def buffers_kept_def\<close>)

lemma na_inv_overwrite:
  assumes "na_inv w"
  shows "na_inv (w\<lparr>memory := overwrite b bs (memory w)\<rparr>)"
  by (rule na_inv_frame [OF assms])
     (use na_invD [OF assms] in
       \<open>auto simp: na_parts owned_ok_def handles_ok_def heap_ok_def buffer_ok_def region_overwrite\<close>)

section \<open>Queues and channels\<close>

text \<open>Waiting operations leave their queues.\<close>

lemma na_inv_withdraw:
  assumes "na_inv w" and "set us \<subseteq> set (unexpected_recv_ops (queues w))"
    and "set es \<subseteq> set (expected_recv_ops (queues w))"
  shows "na_inv (w\<lparr>queues := (queues w)\<lparr>unexpected_recv_ops := us, expected_recv_ops := es,
     pending_rma_ops := ps\<rparr>\<rparr>)"
  by (rule na_inv_frame [OF assms(1)])
     (use na_invD [OF assms(1)] assms(2,3) in
       \<open>auto simp: na_parts owned_ok_def handles_ok_def heap_ok_def buffer_ok_def\<close>)

lemma posted_ok_simps [simp]:
  "posted_ok t (w\<lparr>queues := q\<rparr>) p = posted_ok t w p"
  "posted_ok t (send_completion c w) p = posted_ok t w p"
  by (simp_all add: posted_ok_def buffer_ok_def split: option.split)

text \<open>A receive is posted.\<close>

lemma na_inv_post_unexpected:
  assumes "na_inv w" and "posted_ok CB_RECV_UNEXPECTED w p" and "op_addr (the (op_box w p)) \<notin> set (owned_addrs w)"
  shows "na_inv (w\<lparr>queues := (queues w)\<lparr>unexpected_recv_ops := unexpected_recv_ops (queues w) @ [p]\<rparr>\<rparr>)"
  using na_invD [OF assms(1)] assms(2,3)
  by (auto simp: na_inv_def na_parts owned_ok_def handles_ok_def heap_ok_def posted_all_def)

lemma na_inv_post_expected:
  assumes "na_inv w" and "posted_ok CB_RECV_EXPECTED w p" and "op_addr (the (op_box w p)) \<notin> set (owned_addrs w)"
  shows "na_inv (w\<lparr>queues := (queues w)\<lparr>expected_recv_ops := expected_recv_ops (queues w) @ [p]\<rparr>\<rparr>)"
  using na_invD [OF assms(1)] assms(2,3)
  by (auto simp: na_inv_def na_parts owned_ok_def handles_ok_def heap_ok_def posted_all_def)

text \<open>An address of the client is taken over by the stash or by a completion in the channel.\<close>

lemma na_inv_stash:
  assumes "na_inv w" and "sm_source_addr m \<in> dom (addr_box w)"
    and "sm_source_addr m \<notin> set (owned_addrs w)" and "sm_source_addr m \<notin> filter_addrs w"
  shows "na_inv (w\<lparr>queues := push_stash b m (queues w)\<rparr>)"
  using na_invD [OF assms(1)] assms(2-)
  by (cases b)
     (auto simp: na_inv_def na_parts owned_ok_def handles_ok_def heap_ok_def posted_all_def
       push_stash_def)

lemma na_inv_send_completion:
  assumes "na_inv w" and "set (item_source c) \<subseteq> dom (addr_box w)"
    and "set (item_source c) \<inter> set (owned_addrs w) = {}" and "set (item_source c) \<inter> filter_addrs w = {}"
  shows "na_inv (send_completion c w)"
proof -
  have "distinct (item_source c)" by (simp add: item_source_def split: option.splits)
  then show ?thesis
    using na_invD [OF assms(1)] assms(2-)
    by (auto simp: na_inv_def na_parts owned_ok_def handles_ok_def heap_ok_def posted_all_def)
qed

text \<open>Stashed messages leave the stash; their addresses pass to the client.\<close>

lemma na_inv_unstash_unexpected:
  assumes "na_inv w" and "unexpected_msg_stash (queues w) = s # rest"
  shows "na_inv (w\<lparr>queues := (queues w)\<lparr>unexpected_msg_stash := rest\<rparr>\<rparr>)"
  by (rule na_inv_frame [OF assms(1)])
     (use na_invD [OF assms(1)] assms(2) in
       \<open>auto simp: na_parts owned_ok_def handles_ok_def heap_ok_def buffer_ok_def\<close>)

lemma na_inv_unstash_expected:
  assumes "na_inv w" and "i < length (expected_msg_stash (queues w))"
    and w': "w' = w\<lparr>queues := (queues w)\<lparr>expected_msg_stash := remove_at i (expected_msg_stash (queues w))\<rparr>\<rparr>"
  shows "na_inv w'"
    and "sm_source_addr (expected_msg_stash (queues w) ! i) \<notin> set (owned_addrs w')"
    and "sm_source_addr (expected_msg_stash (queues w) ! i) \<notin> filter_addrs w'"
  unfolding w'
proof -
  let ?w = "w\<lparr>queues := (queues w)\<lparr>expected_msg_stash := remove_at i (expected_msg_stash (queues w))\<rparr>\<rparr>"
  let ?stash = "expected_msg_stash (queues w)"
  note inv = na_invD [OF assms(1)]
  have sub: "set (remove_at i ?stash) \<subseteq> set ?stash" by (rule set_remove_at_subset)
  have "distinct (map sm_source_addr ?stash)" using inv(3) by (simp add: owned_ok_def na_parts)
  then have d: "distinct (map sm_source_addr (remove_at i ?stash))"
    "\<forall>m\<in>set (remove_at i ?stash). sm_source_addr m \<noteq> sm_source_addr (?stash ! i)"
    using assms(2) distinct_remove_at [of "map sm_source_addr ?stash" i]
    by (auto simp: distinct_map_remove_at remove_at_map)
  have own: "set (owned_addrs ?w) \<subseteq> set (owned_addrs w)" using sub by (auto simp: na_parts)
  have dist: "distinct (owned_addrs ?w)"
  proof -
    have "distinct (as @ bs' @ cs)" if "distinct (as @ bs @ cs)" "distinct bs'" "set bs' \<subseteq> set bs"
      for as bs bs' cs :: "ptr list"
      using that by auto
    from this [OF _ d(1), of "map sm_source_addr (unexpected_msg_stash (queues w))"
        "map sm_source_addr ?stash" "channel_sources w"] inv(3) image_mono [OF sub, of sm_source_addr]
    show ?thesis by (simp add: na_parts owned_ok_def)
  qed
  show "na_inv ?w"
    by (rule na_inv_frame [OF assms(1) _ _ _ _ dist own])
       (use inv in \<open>auto simp: handles_ok_def heap_ok_def buffer_ok_def\<close>)
  have "sm_source_addr (?stash ! i) \<in> sm_source_addr ` set ?stash" using assms(2) by simp
  with inv(3) have "sm_source_addr (?stash ! i) \<notin> sm_source_addr ` set (unexpected_msg_stash (queues w))"
    "sm_source_addr (?stash ! i) \<notin> set (channel_sources w)" "sm_source_addr (?stash ! i) \<notin> filter_addrs w"
    by (auto simp: owned_ok_def owned_addrs_def stash_addrs_def)
  with d(2) show "sm_source_addr (?stash ! i) \<notin> set (owned_addrs ?w)"
    "sm_source_addr (?stash ! i) \<notin> filter_addrs ?w"
    by (auto simp: na_parts)
qed

text \<open>Polling empties the channel.\<close>

lemma freed_sources_item: "set (freed_sources w c) \<subseteq> set (item_source c)"
  by (auto simp: freed_sources_def item_source_def split: option.splits)

lemma freed_sources_channel:
  "set (concat (map (freed_sources w) (completion_rx w))) \<subseteq> set (channel_sources w)"
  using freed_sources_item [of w] unfolding channel_sources_def by (simp add: UN_mono)

lemma distinct_freed_sources:
  "distinct (concat (map item_source cs)) \<Longrightarrow> distinct (concat (map (freed_sources w) cs))"
proof (induction cs)
  case (Cons c cs)
  have "distinct (freed_sources w c)" by (simp add: freed_sources_def split: option.splits)
  moreover have "set (concat (map (freed_sources w) cs)) \<subseteq> set (concat (map item_source cs))"
    using freed_sources_item by fastforce
  ultimately show ?case using Cons freed_sources_item [of w c] by auto
qed simp

lemma na_inv_completions_ok:
  assumes "na_inv w" and "distinct (map ci_op_ptr (completion_rx w))"
    and "ci_op_ptr ` set (completion_rx w) \<subseteq> dom (op_box w)"
  shows "completions_ok (completion_rx w) w"
proof -
  note inv = na_invD [OF assms(1)]
  have "distinct (concat (map item_source (completion_rx w)))"
    using inv(3) by (simp add: owned_ok_def owned_addrs_def channel_sources_def)
  moreover have "set (concat (map (freed_sources w) (completion_rx w))) \<subseteq> dom (addr_box w)"
    using inv(3) order_trans [OF freed_sources_channel [of w], of "dom (addr_box w)"]
    by (simp add: owned_ok_def owned_addrs_def)
  ultimately show ?thesis using assms(2,3) by (simp add: completions_ok_def distinct_freed_sources)
qed

lemma poll_eq:
  assumes "completions_ok (completion_rx w) w"
  shows "na_libp2p_poll w = Some (NA_SUCCESS, of_nat (length (completion_rx w)),
     w\<lparr>op_box := reported_box (completion_rx w) (op_box w),
       addr_box := addr_box w |` (- set (concat (map (freed_sources w) (completion_rx w)))),
       completion_rx := [], event_fd := 0,
       na_completions := na_completions w @ reported_contexts (completion_rx w) (op_box w)\<rparr>)"
proof -
  have fs: "freed_sources (drain_eventfd w) = freed_sources w"
    by (rule ext, rule freed_sources_frame) (simp add: drain_eventfd_def)
  have "completions_ok (completion_rx w) (drain_eventfd w)"
    using assms by (simp add: completions_ok_def fs) (simp add: drain_eventfd_def)
  from poll_loop_eq [OF _ this, of 0] show ?thesis
    by (simp add: na_libp2p_poll_def fs) (simp add: drain_eventfd_def)
qed

lemma na_inv_poll:
  assumes "na_inv w" and "recv_ops w \<inter> ci_op_ptr ` set (completion_rx w) = {}"
    and "ci_op_ptr ` set (completion_rx w) \<subseteq> dom (op_box w)"
  shows "na_inv (w\<lparr>op_box := reported_box (completion_rx w) (op_box w),
       addr_box := addr_box w |` (- set (concat (map (freed_sources w) (completion_rx w)))),
       completion_rx := [], event_fd := 0, na_completions := cs\<rparr>)" (is "na_inv ?w")
proof (rule na_inv_frame [OF assms(1)])
  note inv = na_invD [OF assms(1)]
  have dom: "p \<in> dom (op_box w)" if "reported_box (completion_rx w) (op_box w) p \<noteq> None" for p
    using that by (auto simp: reported_box_def split: option.splits)
  show "heap_ok ?w" using inv(1) dom
    by (auto simp: heap_ok_def restrict_map_def split: if_splits)
  show "op_box ?w p = op_box w p" if "p \<in> recv_ops ?w" for p
  proof -
    from that assms(2) have "\<forall>c\<in>set (completion_rx w). ci_op_ptr c \<noteq> p"
      by (auto simp: recv_ops_def)
    then have "find (\<lambda>c. ci_op_ptr c = p) (completion_rx w) = None" by (auto simp: find_None_iff)
    then show ?thesis by (simp add: reported_box_def)
  qed
  note box = this
  have "filter_addrs ?w = filter_addrs w"
    using box unfolding filter_addrs_def by (intro image_cong) (simp_all add: recv_ops_def)
  with inv(3) have filt: "filter_addrs ?w \<inter> set (channel_sources w) = {}"
    by (auto simp: owned_ok_def owned_addrs_def)
  have own: "set (owned_addrs ?w) \<inter> set (channel_sources w) = {}"
    using inv(3) by (auto simp: owned_ok_def owned_addrs_def stash_addrs_def channel_sources_def)
  show "addr_box ?w a \<noteq> None"
    if "a \<in> set (owned_addrs ?w) \<union> filter_addrs ?w" "addr_box w a \<noteq> None" for a
    using that freed_sources_channel [of w] filt own by (auto simp: restrict_map_def)
qed (use na_invD [OF assms(1)] in \<open>auto simp: na_parts owned_ok_def handles_ok_def buffer_ok_def\<close>)

end
