(* ===== verification/Peer_Sender.thy ===== *)
theory Peer_Sender
  imports Plugin_State
begin

text \<open>
  Outgoing messages (\<^verbatim>\<open>src/src/runtime.rs\<close>): the pool of per-peer channels, the writer task
  behind each channel, and the sending of one message with its retries. Opening a stream
  and writing to one are operations of libp2p: they are arguments that act on an opaque
  network state, and every call is recorded in a trace.
\<close>

section \<open>Messages and channels\<close>

text \<open>\<^verbatim>\<open>OutboundMsg\<close>; the result channel is named by a number.\<close>

record 'pid outbound_msg =
  om_header :: "'pid wire_header"
  om_payload :: bytes
  om_result :: "nat option"

text \<open>A channel with its writer task: the peer, the queued messages, and whether the task lives.\<close>

record 'pid channel =
  ch_peer :: 'pid
  ch_queue :: "'pid outbound_msg list"
  ch_open :: bool

record 'pid sender_pool =
  senders :: "'pid \<rightharpoonup> nat"
  channels :: "nat \<rightharpoonup> 'pid channel"
  next_channel :: nat

definition pool_new :: "'pid sender_pool" where
  "pool_new = \<lparr>senders = Map.empty, channels = Map.empty, next_channel = 0\<rparr>"

definition is_closed :: "nat \<Rightarrow> 'pid sender_pool \<Rightarrow> bool" where
  "is_closed c pool = (case channels pool c of Some ch \<Rightarrow> \<not> ch_open ch | None \<Rightarrow> True)"

definition get_or_create :: "'pid \<Rightarrow> 'pid sender_pool \<Rightarrow> nat \<times> 'pid sender_pool" where
  "get_or_create peer pool =
     (let create = (next_channel pool,
            pool\<lparr>senders := (senders pool)(peer \<mapsto> next_channel pool),
                 channels := (channels pool)(next_channel pool \<mapsto>
                   \<lparr>ch_peer = peer, ch_queue = [], ch_open = True\<rparr>),
                 next_channel := Suc (next_channel pool)\<rparr>)
      in case senders pool peer of
           Some c \<Rightarrow> if \<not> is_closed c pool then (c, pool) else create
         | None \<Rightarrow> create)"

text \<open>\<^verbatim>\<open>tx.send(msg)\<close>, which fails silently when the writer task is gone.\<close>

definition channel_send :: "nat \<Rightarrow> 'pid outbound_msg \<Rightarrow> 'pid sender_pool \<Rightarrow> 'pid sender_pool" where
  "channel_send c msg pool =
     (case channels pool c of
        Some ch \<Rightarrow> if ch_open ch then
            pool\<lparr>channels := (channels pool)(c \<mapsto> ch\<lparr>ch_queue := ch_queue ch @ [msg]\<rparr>)\<rparr>
          else pool
      | None \<Rightarrow> pool)"

definition remove_sender :: "'pid \<Rightarrow> 'pid sender_pool \<Rightarrow> 'pid sender_pool" where
  "remove_sender peer pool = pool\<lparr>senders := (senders pool)(peer := None)\<rparr>"

section \<open>Sending one message\<close>

text \<open>
  The control handle of libp2p: opening a stream, and \<^verbatim>\<open>write_all\<close> with \<^verbatim>\<open>flush\<close> on one.
\<close>

record ('pid, 's, 'net) control =
  open_stream :: "'pid \<Rightarrow> 'net \<Rightarrow> (string + 's) \<times> 'net"
  write_all :: "'s \<Rightarrow> bytes \<Rightarrow> 'net \<Rightarrow> io_error option \<times> 'net"

datatype send_error = OpenFailed string | WriteFailed io_error | RetriesExhausted

datatype net_effect = Opened bool | Written bytes bool | Slept nat

definition backoff :: "nat \<Rightarrow> nat" where
  "backoff attempt = 20 * 2 ^ attempt"

text \<open>
  The loop over the attempts, with the number of attempts left: the attempt makes sure that
  there is a stream, writes the whole frame on it, and drops the stream when that fails.
\<close>

fun send_attempts ::
  "('pid, 's, 'net) control \<Rightarrow> 'pid \<Rightarrow> bytes \<Rightarrow> nat \<Rightarrow> nat \<Rightarrow> 's option \<Rightarrow> 'net
     \<Rightarrow> (send_error + unit) \<times> 's option \<times> 'net \<times> net_effect list" where
  "send_attempts C peer buf attempt 0 stream_opt net = (Inl RetriesExhausted, stream_opt, net, [])"
| "send_attempts C peer buf attempt (Suc left) stream_opt net =
     (case (case stream_opt of
              Some s \<Rightarrow> (Inr s, net, [])
            | None \<Rightarrow> (case open_stream C peer net of
                  (Inr s, net) \<Rightarrow> (Inr s, net, [Opened True])
                | (Inl e, net) \<Rightarrow> (Inl e, net, [Opened False]))) of
        (Inl e, net, tr) \<Rightarrow>
          if attempt < 2 then
            (let (r, so, net, tr') = send_attempts C peer buf (Suc attempt) left None net
             in (r, so, net, tr @ [Slept (backoff attempt)] @ tr'))
          else (Inl (OpenFailed e), None, net, tr)
      | (Inr s, net, tr) \<Rightarrow>
          (case write_all C s buf net of
             (None, net) \<Rightarrow> (Inr (), Some s, net, tr @ [Written buf True])
           | (Some e, net) \<Rightarrow>
               if attempt \<ge> 2 then (Inl (WriteFailed e), None, net, tr @ [Written buf False])
               else (let (r, so, net, tr') = send_attempts C peer buf (Suc attempt) left None net
                     in (r, so, net, tr @ [Written buf False, Slept (backoff attempt)] @ tr'))))"

definition send_one_message ::
  "('pid \<Rightarrow> bytes) \<Rightarrow> ('pid, 's, 'net) control \<Rightarrow> 'pid \<Rightarrow> 's option \<Rightarrow> 'pid outbound_msg \<Rightarrow> 'net
     \<Rightarrow> (send_error + unit) \<times> 's option \<times> 'net \<times> net_effect list" where
  "send_one_message to_bytes C peer stream_opt msg net =
     send_attempts C peer (write_message to_bytes (om_header msg) (om_payload msg)) 0 3 stream_opt net"

text \<open>
  The writer task on the messages it receives before its channel closes: one at a time, on
  one stream as long as that works, with the result of each message and whom to tell it.
\<close>

fun peer_writer_task ::
  "('pid \<Rightarrow> bytes) \<Rightarrow> ('pid, 's, 'net) control \<Rightarrow> 'pid \<Rightarrow> 's option \<Rightarrow> 'pid outbound_msg list \<Rightarrow> 'net
     \<Rightarrow> (nat option \<times> (send_error + unit)) list \<times> 's option \<times> 'net" where
  "peer_writer_task to_bytes C peer stream_opt [] net = ([], stream_opt, net)"
| "peer_writer_task to_bytes C peer stream_opt (msg # msgs) net =
     (let (r, stream_opt, net, _) = send_one_message to_bytes C peer stream_opt msg net;
          (rs, stream_opt, net) = peer_writer_task to_bytes C peer stream_opt msgs net
      in ((om_result msg, r) # rs, stream_opt, net))"

section \<open>Retries\<close>

definition sleeps :: "net_effect list \<Rightarrow> nat list" where
  "sleeps tr = concat (map (\<lambda>e. case e of Slept n \<Rightarrow> [n] | _ \<Rightarrow> []) tr)"

definition writes :: "net_effect list \<Rightarrow> (bytes \<times> bool) list" where
  "writes tr = concat (map (\<lambda>e. case e of Written b ok \<Rightarrow> [(b, ok)] | _ \<Rightarrow> []) tr)"

lemma trace_simps [simp]:
  "sleeps [] = []" "sleeps (Slept n # tr) = n # sleeps tr" "sleeps (Opened b # tr) = sleeps tr"
  "sleeps (Written d b # tr) = sleeps tr" "sleeps (tr @ tr') = sleeps tr @ sleeps tr'"
  "writes [] = []" "writes (Slept n # tr) = writes tr" "writes (Opened b # tr) = writes tr"
  "writes (Written d b # tr) = (d, b) # writes tr" "writes (tr @ tr') = writes tr @ writes tr'"
  by (simp_all add: sleeps_def writes_def)

text \<open>One attempt: it ends the sending or goes on with the next one.\<close>

lemma send_attempts_Suc:
  obtains
    (sent) s net' tr where "send_attempts C peer buf attempt (Suc left) so net
        = (Inr (), Some s, net', tr @ [Written buf True])" "sleeps tr = []" "writes tr = []"
  | (failed) e net' tr ws where "attempt \<ge> 2" "send_attempts C peer buf attempt (Suc left) so net
        = (Inl e, None, net', tr)" "e \<noteq> RetriesExhausted" "sleeps tr = []" "writes tr = replicate ws (buf, False)" "ws \<le> 1"
  | (again) net1 tr r so' net' tr' ws where "attempt < 2"
      "send_attempts C peer buf (Suc attempt) left None net1 = (r, so', net', tr')"
      "send_attempts C peer buf attempt (Suc left) so net
        = (r, so', net', tr @ [Slept (backoff attempt)] @ tr')"
      "sleeps tr = []" "writes tr = replicate ws (buf, False)" "ws \<le> 1"
proof -
  obtain res net1 tr1 where opened: "(case so of
              Some s \<Rightarrow> (Inr s, net, [])
            | None \<Rightarrow> (case open_stream C peer net of
                  (Inr s, net) \<Rightarrow> (Inr s, net, [Opened True])
                | (Inl e, net) \<Rightarrow> (Inl e, net, [Opened False]))) = (res, net1, tr1)"
    by (rule prod_cases3)
  have tr1: "sleeps tr1 = []" "writes tr1 = []"
    using opened by (auto split: option.splits prod.splits sum.splits)
  obtain r2 so2 net2 tr2 where next_net1: "send_attempts C peer buf (Suc attempt) left None net1 = (r2, so2, net2, tr2)"
    by (rule prod_cases4)
  show thesis
  proof (cases res)
    case (Inl e)
    show thesis
    proof (cases "attempt < 2")
      case True
      from again [OF this next_net1, of tr1 0] show thesis
        using opened Inl True next_net1 tr1 by simp
    next
      case False
      from failed [of "OpenFailed e" net1 tr1 0] show thesis
        using opened Inl False tr1 by simp
    qed
  next
    case (Inr s)
    obtain werr net3 where w: "write_all C s buf net1 = (werr, net3)" by force
    obtain r4 so4 net4 tr4 where next_net3: "send_attempts C peer buf (Suc attempt) left None net3 = (r4, so4, net4, tr4)"
      by (rule prod_cases4)
    show thesis
    proof (cases werr)
      case None
      from sent [of s net3 tr1] show thesis using opened Inr w None tr1 by simp
    next
      case (Some e)
      show thesis
      proof (cases "attempt < 2")
        case True
        from again [OF this next_net3, of "tr1 @ [Written buf False]" 1] show thesis
          using opened Inr w Some True next_net3 tr1 by simp
      next
        case False
        from failed [of "WriteFailed e" net3 "tr1 @ [Written buf False]" 1] show thesis
          using opened Inr w Some False tr1 by simp
      qed
    qed
  qed
qed

lemma send_attempts_spec:
  assumes "send_attempts C peer buf attempt left so net = (r, so', net', tr)"
    and "attempt + left = 3" and "0 < left"
  shows "r \<noteq> Inl RetriesExhausted \<and> (r = Inr () \<longleftrightarrow> so' \<noteq> None) \<and>
    (\<exists>k. sleeps tr = take k (map backoff [attempt..<2])) \<and>
    (\<exists>n. writes tr = replicate n (buf, False) @ (if r = Inr () then [(buf, True)] else [])
         \<and> n + (if r = Inr () then 1 else 0) \<le> left)"
  using assms
proof (induction left arbitrary: attempt so net r so' net' tr)
  case 0
  then show ?case by simp
next
  case (Suc left)
  from send_attempts_Suc [of C peer buf attempt left so net] show ?case
  proof cases
    case sent
    with Suc.prems show ?thesis by (auto intro: exI [of _ 0])
  next
    case (failed e net1 tr1 ws)
    with Suc.prems show ?thesis by (auto intro: exI [of _ 0] exI [of _ ws])
  next
    case (again net1 tr1 r1 so1 net2 tr2 ws)
    with Suc.prems have eq: "r = r1" "so' = so1" "tr = tr1 @ [Slept (backoff attempt)] @ tr2"
      and left: "0 < left" "Suc attempt + left = 3" by auto
    from Suc.IH [OF again(2) left(2,1)] obtain k n where IH:
      "r1 \<noteq> Inl RetriesExhausted" "r1 = Inr () \<longleftrightarrow> so1 \<noteq> None"
      "sleeps tr2 = take k (map backoff [Suc attempt..<2])"
      "writes tr2 = replicate n (buf, False) @ (if r1 = Inr () then [(buf, True)] else [])"
      "n + (if r1 = Inr () then 1 else 0) \<le> left" by blast
    have "sleeps tr = take (Suc k) (map backoff [attempt..<2])"
      using again(1,4) IH(3) by (simp add: eq(3) upt_conv_Cons)
    moreover have "writes tr = replicate (ws + n) (buf, False) @ (if r = Inr () then [(buf, True)] else [])"
      using again(5) IH(4) by (simp add: eq replicate_add)
    moreover have "ws + n + (if r = Inr () then 1 else 0) \<le> Suc left"
      using again(6) IH(5) by (simp add: eq)
    ultimately show ?thesis using IH(1,2) eq by blast
  qed
qed

text \<open>Sending a message makes at most three attempts: it sleeps 20 and then 40 milliseconds
  between them, every attempt writes the whole frame of this message and nothing else, every
  write but the last one failed, the outcome is a success exactly when the last write went
  through, an error leaves no stream behind, and the error for exhausted retries at the end
  of the function is never returned.\<close>

lemma send_one_message_attempts:
  "case send_one_message to_bytes C peer stream_opt msg net of
     (r, stream_opt', net', tr) \<Rightarrow>
       (let buf = write_message to_bytes (om_header msg) (om_payload msg) in
        r \<noteq> Inl RetriesExhausted \<and> (r = Inr () \<longleftrightarrow> stream_opt' \<noteq> None) \<and>
        sleeps tr \<in> {[], [20], [20, 40]} \<and>
        (\<exists>n. n \<le> 3 \<and> writes tr = replicate n (buf, False) @ (if r = Inr () then [(buf, True)] else [])
             \<and> n + (if r = Inr () then 1 else 0) \<le> 3))"
proof -
  let ?buf = "write_message to_bytes (om_header msg) (om_payload msg)"
  obtain r so' net' tr where run: "send_one_message to_bytes C peer stream_opt msg net = (r, so', net', tr)"
    by (rule prod_cases4)
  then have "send_attempts C peer ?buf 0 3 stream_opt net = (r, so', net', tr)"
    by (simp add: send_one_message_def)
  from send_attempts_spec [OF this] obtain k n where spec:
    "r \<noteq> Inl RetriesExhausted" "r = Inr () \<longleftrightarrow> so' \<noteq> None"
    "sleeps tr = take k (map backoff [0..<2])"
    "writes tr = replicate n (?buf, False) @ (if r = Inr () then [(?buf, True)] else [])"
    "n + (if r = Inr () then 1 else 0) \<le> 3" by auto
  have "take k [20, 40 :: nat] \<in> {[], [20], [20, 40]}"
    by (cases k; cases "k - 1") auto
  then have "sleeps tr \<in> {[], [20], [20, 40]}"
    using spec(3) by (simp add: backoff_def upt_conv_Cons numeral_2_eq_2)
  moreover have "n \<le> 3" using spec(5) by simp
  ultimately show ?thesis using spec run by (auto simp: Let_def)
qed

section \<open>In order on one stream\<close>

text \<open>
  What is relied on of a stream: a write that reports success has appended its bytes to what
  the other end will read.
\<close>

definition carries :: "('pid, 's, 'net) control \<Rightarrow> ('net \<Rightarrow> 's \<Rightarrow> bytes) \<Rightarrow> bool" where
  "carries C content \<longleftrightarrow>
     (\<forall>s b net net'. write_all C s b net = (None, net') \<longrightarrow> content net' s = content net s @ b)"

definition never_fails :: "('pid, 's, 'net) control \<Rightarrow> 's \<Rightarrow> bool" where
  "never_fails C s \<longleftrightarrow> (\<forall>b net. fst (write_all C s b net) = None)"

definition message_pair :: "'pid outbound_msg \<Rightarrow> 'pid wire_header \<times> bytes" where
  "message_pair m = (om_header m, om_payload m)"

lemma send_one_message_open:
  assumes "carries C content" and "never_fails C s"
  obtains net' tr where "send_one_message to_bytes C peer (Some s) m net = (Inr (), Some s, net', tr)"
    and "content net' s = content net s @ frame to_bytes (message_pair m)"
proof -
  let ?buf = "write_message to_bytes (om_header m) (om_payload m)"
  obtain net' where w: "write_all C s ?buf net = (None, net')"
    using assms(2) unfolding never_fails_def by (metis prod.collapse)
  have three: "(3 :: nat) = Suc 2" by simp
  have "send_one_message to_bytes C peer (Some s) m net = (Inr (), Some s, net', [Written ?buf True])"
    unfolding send_one_message_def three send_attempts.simps by (simp add: w)
  moreover have "content net' s = content net s @ ?buf"
    using assms(1) w unfolding carries_def by blast
  ultimately show ?thesis using that by (simp add: frame_def message_pair_def)
qed

lemma writer_content:
  assumes "carries C content" and "never_fails C s"
  shows "\<exists>net'. peer_writer_task to_bytes C peer (Some s) msgs net
       = (map (\<lambda>m. (om_result m, Inr ())) msgs, Some s, net') \<and>
     content net' s = content net s @ concat (map (frame to_bytes) (map message_pair msgs))"
proof (induction msgs arbitrary: net)
  case Nil
  then show ?case by simp
next
  case (Cons m msgs)
  from assms obtain net1 tr where
    "send_one_message to_bytes C peer (Some s) m net = (Inr (), Some s, net1, tr)"
    "content net1 s = content net s @ frame to_bytes (message_pair m)"
    by (rule send_one_message_open)
  moreover from Cons.IH [of net1] obtain net2 where
    "peer_writer_task to_bytes C peer (Some s) msgs net1
       = (map (\<lambda>m. (om_result m, Inr ())) msgs, Some s, net2)"
    "content net2 s = content net1 s @ concat (map (frame to_bytes) (map message_pair msgs))" by blast
  ultimately show ?case by simp
qed


section \<open>The pool\<close>

definition pool_ok :: "'pid sender_pool \<Rightarrow> bool" where
  "pool_ok pool \<longleftrightarrow>
     (\<forall>c. channels pool c \<noteq> None \<longrightarrow> c < next_channel pool) \<and>
     (\<forall>peer c. senders pool peer = Some c \<longrightarrow> map_option ch_peer (channels pool c) = Some peer)"

lemma pool_ok_new: "pool_ok pool_new"
  by (simp add: pool_ok_def pool_new_def)

lemma pool_ok_send: "pool_ok pool \<Longrightarrow> pool_ok (channel_send c m pool)"
  by (fastforce simp: pool_ok_def channel_send_def split: option.splits)

lemma pool_ok_remove: "pool_ok pool \<Longrightarrow> pool_ok (remove_sender p pool)"
  by (auto simp: pool_ok_def remove_sender_def)

text \<open>
  The pool hands out, for a peer, a channel of this peer whose writer task lives, the same
  one until it is closed or removed, and keeps the channels of all other peers.
\<close>

lemma get_or_create_spec:
  assumes "pool_ok pool"
  shows "case get_or_create peer pool of
     (c, pool') \<Rightarrow>
       pool_ok pool' \<and> senders pool' peer = Some c \<and> \<not> is_closed c pool' \<and>
       map_option ch_peer (channels pool' c) = Some peer \<and>
       get_or_create peer pool' = (c, pool') \<and>
       (\<forall>p. p \<noteq> peer \<longrightarrow> senders pool' p = senders pool p) \<and>
       (\<forall>d. channels pool d \<noteq> None \<longrightarrow> channels pool' d = channels pool d)"
proof (cases "\<exists>c. senders pool peer = Some c \<and> \<not> is_closed c pool")
  case True
  with assms show ?thesis by (auto simp: get_or_create_def pool_ok_def Let_def)
next
  case False
  then have "get_or_create peer pool = (next_channel pool,
            pool\<lparr>senders := (senders pool)(peer \<mapsto> next_channel pool),
                 channels := (channels pool)(next_channel pool \<mapsto>
                   \<lparr>ch_peer = peer, ch_queue = [], ch_open = True\<rparr>),
                 next_channel := Suc (next_channel pool)\<rparr>)"
    by (auto simp: get_or_create_def Let_def split: option.splits)
  with assms show ?thesis
    by (fastforce simp: pool_ok_def is_closed_def get_or_create_def)
qed

section \<open>Concrete runs\<close>

text \<open>A network of numbered streams that keeps what was written on each.\<close>

definition example_control :: "(u8, nat, nat \<Rightarrow> bytes) control" where
  "example_control =
     \<lparr>open_stream = (\<lambda>peer net. (Inr 0, net)),
      write_all = (\<lambda>s b net. (None, net(s := net s @ b)))\<rparr>"

definition example_outbound :: "u32 \<Rightarrow> u8 outbound_msg" where
  "example_outbound t =
     \<lparr>om_header = (example_header t)\<lparr>payload_size := 2\<rparr>, om_payload = [1, 2], om_result = Some 5\<rparr>"


end
