(* ===== verification/Incoming.thy ===== *)
theory Incoming
  imports Rma Peer_Sender
begin

text \<open>
  Incoming streams (\<^verbatim>\<open>handle_incoming_stream\<close> and \<^verbatim>\<open>handle_rma_get_request\<close> of
  \<^verbatim>\<open>src/src/runtime.rs\<close>): the loop that reads messages off a stream and hands each to its
  handler, and the answer to a get request through the pool of response channels.
\<close>

section \<open>The handler of a stream\<close>

text \<open>The shared state, the pool of response channels, and the next result channel.\<close>

record 'pid incoming_state =
  in_na :: "'pid na_state"
  in_pool :: "'pid sender_pool"
  in_result :: nat

datatype stream_error = ReadError io_error | HandlerError string

text \<open>
  The answer to a get request. \<open>outcome\<close> is what the writer task reports on a result
  channel, \<^const>\<open>None\<close> when it is gone without a report.
\<close>

definition handle_rma_get_request ::
  "(nat \<Rightarrow> (string + unit) option) \<Rightarrow> 'pid wire_header \<Rightarrow> 'pid incoming_state
     \<Rightarrow> ((string + unit) \<times> 'pid incoming_state) option" where
  "handle_rma_get_request outcome header st = do {
     reply \<leftarrow> rma_get_reply header (in_na st);
     case reply of
       None \<Rightarrow> Some (Inr (), st)
     | Some (resp_header, data) \<Rightarrow> do {
         let r = in_result st;
         let (tx, pl) = get_or_create (source_peer_id header) (in_pool st);
         let pl = channel_send tx \<lparr>om_header = resp_header, om_payload = data, om_result = Some r\<rparr> pl;
         Some (case outcome r of
                 Some res \<Rightarrow> res
               | None \<Rightarrow> Inl ''RMA get response sender dropped'',
               st\<lparr>in_pool := pl, in_result := Suc r\<rparr>)
       }
   }"

definition dispatch ::
  "(nat \<Rightarrow> (string + unit) option) \<Rightarrow> 'pid wire_header \<times> bytes \<Rightarrow> 'pid incoming_state
     \<Rightarrow> ((string + unit) \<times> 'pid incoming_state) option" where
  "dispatch outcome m st =
     (case m of (header, payload) \<Rightarrow>
        (case msg_type header of
           Unexpected \<Rightarrow> do {
             w \<leftarrow> handle_incoming_msg header payload False (in_na st);
             Some (Inr (), st\<lparr>in_na := w\<rparr>)
           }
         | Expected \<Rightarrow> do {
             w \<leftarrow> handle_incoming_msg header payload True (in_na st);
             Some (Inr (), st\<lparr>in_na := w\<rparr>)
           }
         | RmaPut \<Rightarrow> do {
             w \<leftarrow> handle_rma_put header payload (in_na st);
             Some (Inr (), st\<lparr>in_na := w\<rparr>)
           }
         | RmaGetReq \<Rightarrow> handle_rma_get_request outcome header st
         | RmaGetResp \<Rightarrow> do {
             w \<leftarrow> handle_rma_get_response header payload (in_na st);
             Some (Inr (), st\<lparr>in_na := w\<rparr>)
           }))"

function handle_incoming_stream ::
  "(bytes \<Rightarrow> 'pid option) \<Rightarrow> (nat \<Rightarrow> (string + unit) option) \<Rightarrow> rstream \<Rightarrow> 'pid incoming_state
     \<Rightarrow> ((stream_error + unit) \<times> 'pid incoming_state) option" where
  "handle_incoming_stream from_bytes outcome s st =
     (case read_message from_bytes s of
        Inl e \<Rightarrow> Some (if e = UnexpectedEof then Inr () else Inl (ReadError e), st)
      | Inr (m, s') \<Rightarrow>
          (case dispatch outcome m st of
             None \<Rightarrow> None
           | Some (Inl e, st') \<Rightarrow> Some (Inl (HandlerError e), st')
           | Some (Inr _, st') \<Rightarrow> handle_incoming_stream from_bytes outcome s' st'))"
  by pat_completeness auto
termination
  by (relation "measure (\<lambda>(f, out, s, st). length (rs_data s))") (auto dest!: read_message_progress)

declare handle_incoming_stream.simps [simp del]

section \<open>A reference definition\<close>

text \<open>Handling a list of messages one after the other, up to the first handler that fails.\<close>

fun dispatch_all ::
  "(nat \<Rightarrow> (string + unit) option) \<Rightarrow> ('pid wire_header \<times> bytes) list \<Rightarrow> 'pid incoming_state
     \<Rightarrow> ((string + unit) \<times> 'pid incoming_state) option" where
  "dispatch_all outcome [] st = Some (Inr (), st)"
| "dispatch_all outcome (m # ms) st =
     (case dispatch outcome m st of
        None \<Rightarrow> None
      | Some (Inl e, st') \<Rightarrow> Some (Inl e, st')
      | Some (Inr _, st') \<Rightarrow> dispatch_all outcome ms st')"

definition end_of_stream :: "io_error \<Rightarrow> stream_error + unit" where
  "end_of_stream e = (if e = UnexpectedEof then Inr () else Inl (ReadError e))"

lemma stream_eq_dispatch_all:
  "handle_incoming_stream from_bytes outcome s st =
     (case read_messages from_bytes s of
        (ms, e) \<Rightarrow>
          map_option (\<lambda>(r, st'). (case r of Inl x \<Rightarrow> Inl (HandlerError x) | Inr _ \<Rightarrow> end_of_stream e, st'))
            (dispatch_all outcome ms st))"
proof (induction from_bytes outcome s st rule: handle_incoming_stream.induct)
  case (1 from_bytes outcome s st)
  show ?case
  proof (cases "read_message from_bytes s")
    case (Inl e)
    then show ?thesis
      by (simp add: handle_incoming_stream.simps [of from_bytes outcome s] read_messages.simps [of from_bytes s]
          end_of_stream_def)
  next
    case (Inr x)
    obtain m s' where x: "x = (m, s')" by (cases x)
    obtain ms e where rest: "read_messages from_bytes s' = (ms, e)" by force
    have all: "read_messages from_bytes s = (m # ms, e)"
      using Inr x rest by (simp add: read_messages.simps [of from_bytes s])
    have one: "handle_incoming_stream from_bytes outcome s st =
          (case dispatch outcome m st of
             None \<Rightarrow> None
           | Some (Inl e, st') \<Rightarrow> Some (Inl (HandlerError e), st')
           | Some (Inr _, st') \<Rightarrow> handle_incoming_stream from_bytes outcome s' st')"
      using Inr x by (simp add: handle_incoming_stream.simps [of from_bytes outcome s])
    show ?thesis
    proof (cases "dispatch outcome m st")
      case None
      with one all show ?thesis by simp
    next
      case (Some y)
      obtain r st' where y: "y = (r, st')" by force
      show ?thesis
      proof (cases r)
        case (Inl x)
        with one all Some y show ?thesis by simp
      next
        case (Inr u)
        with "1.IH" [OF \<open>read_message from_bytes s = Inr x\<close> x [symmetric] Some y [symmetric] Inr] one all Some y rest
        show ?thesis by simp
      qed
    qed
  qed
qed

text \<open>C34: the handler of a stream, which reads and handles one message at a time, does the same
  as reading all messages first and then handling them in order: it handles exactly the whole
  messages of the stream up to the first failing handler, returns normally at a clean end of
  the stream and reports any other read error.\<close>

theorem incoming_stream_in_order:
  "handle_incoming_stream from_bytes outcome s st =
     (case read_messages from_bytes s of
        (ms, e) \<Rightarrow>
          (case dispatch_all outcome ms st of
             None \<Rightarrow> None
           | Some (Inl x, st') \<Rightarrow> Some (Inl (HandlerError x), st')
           | Some (Inr _, st') \<Rightarrow> Some (if e = UnexpectedEof then Inr () else Inl (ReadError e), st')))"
  unfolding stream_eq_dispatch_all
  by (auto simp: end_of_stream_def split: prod.splits option.splits sum.splits)



end
