(* ===== verification/Swarm_Loop.thy ===== *)
theory Swarm_Loop
  imports Peer_Sender "HOL-Library.Multiset"
begin

text \<open>
  The event loop of the runtime (\<^verbatim>\<open>src/src/runtime.rs\<close>, the task that \<^verbatim>\<open>spawn_swarm_task\<close>
  spawns): commands from the NA thread, events of the swarm, and the deadlines of relay
  connections that wait for hole punching (DCUtR). The swarm itself is libp2p: what it
  answers in one turn of the loop is an argument, what the loop asks of it is recorded.
  Times are in milliseconds.
\<close>

section \<open>State\<close>

record pending_entry =
  pd_result_tx :: "nat option"
  pd_relay_connected :: bool
  pd_deadline :: nat

datatype 'pid swarm_call = AddPeerAddress 'pid "'pid multiaddr" | Dial 'pid "'pid multiaddr list"

text \<open>The tasks that wait for the result of a send, and what they wait for.\<close>

datatype task_kind = SendTask | PutTask | GetTask

record send_task =
  st_result :: nat
  st_op :: ptr
  st_kind :: task_kind

text \<open>
  The local variables of the loop and the shared map of peer addresses. \<open>replies\<close> are the
  answers on the channels of relay requests, \<^const>\<open>None\<close> for a channel dropped unanswered.
\<close>

record 'pid loop_state =
  pool :: "'pid sender_pool"
  peer_addrs :: "'pid \<rightharpoonup> 'pid multiaddr"
  pending_dcutr :: "('pid \<times> pending_entry) list"
  swarm_calls :: "'pid swarm_call list"
  replies :: "(nat \<times> relay_connect_result option) list"
  tasks :: "send_task list"
  next_result :: nat
  running :: bool

definition loop_init :: "'pid loop_state" where
  "loop_init = \<lparr>pool = pool_new, peer_addrs = Map.empty, pending_dcutr = [], swarm_calls = [],
     replies = [], tasks = [], next_result = 0, running = True\<rparr>"

text \<open>
  The swarm's answers in one turn: whether it is connected to a peer, the error of a dial
  (conditional on not being connected and not dialing), and the time.
\<close>

record 'pid swarm_env =
  is_connected :: "'pid \<Rightarrow> bool"
  dial_error :: "'pid \<Rightarrow> 'pid multiaddr list \<Rightarrow> string option"
  now :: nat

definition DCUTR_TIMEOUT :: nat where
  "DCUTR_TIMEOUT = 10 * 1000"

definition add_peer_address :: "'pid \<Rightarrow> 'pid multiaddr \<Rightarrow> 'pid loop_state \<Rightarrow> 'pid loop_state" where
  "add_peer_address p ma ls = ls\<lparr>swarm_calls := swarm_calls ls @ [AddPeerAddress p ma]\<rparr>"

definition dial :: "'pid \<Rightarrow> 'pid multiaddr list \<Rightarrow> 'pid loop_state \<Rightarrow> 'pid loop_state" where
  "dial p addrs ls = ls\<lparr>swarm_calls := swarm_calls ls @ [Dial p addrs]\<rparr>"

definition learn_addr :: "'pid \<Rightarrow> 'pid multiaddr \<Rightarrow> 'pid loop_state \<Rightarrow> 'pid loop_state" where
  "learn_addr p ma ls = ls\<lparr>peer_addrs := (peer_addrs ls)(p \<mapsto> ma)\<rparr>"

section \<open>The pending relay connections\<close>

text \<open>\<^verbatim>\<open>pending_dcutr.remove(&peer)\<close> as a pair of the entry and the map without it.\<close>

definition remove_pending ::
  "'pid \<Rightarrow> 'pid loop_state \<Rightarrow> pending_entry option \<times> 'pid loop_state" where
  "remove_pending p ls =
     (map_of (pending_dcutr ls) p,
      ls\<lparr>pending_dcutr := filter (\<lambda>(q, _). q \<noteq> p) (pending_dcutr ls)\<rparr>)"

text \<open>\<^verbatim>\<open>pending.result_tx.take()\<close> and the send on it.\<close>

definition answer :: "pending_entry \<Rightarrow> relay_connect_result \<Rightarrow> 'pid loop_state \<Rightarrow> 'pid loop_state" where
  "answer pd r ls =
     (case pd_result_tx pd of
        Some tx \<Rightarrow> ls\<lparr>replies := replies ls @ [(tx, Some r)]\<rparr>
      | None \<Rightarrow> ls)"

text \<open>Dropping an entry that still holds its channel closes the channel.\<close>

definition drop_entry :: "pending_entry option \<Rightarrow> 'pid loop_state \<Rightarrow> 'pid loop_state" where
  "drop_entry e ls =
     (case Option.bind e pd_result_tx of
        Some tx \<Rightarrow> ls\<lparr>replies := replies ls @ [(tx, None)]\<rparr>
      | None \<Rightarrow> ls)"

text \<open>\<^verbatim>\<open>pending_dcutr.insert(peer, entry)\<close>, which drops an entry of the same peer.\<close>

definition insert_pending :: "'pid \<Rightarrow> pending_entry \<Rightarrow> 'pid loop_state \<Rightarrow> 'pid loop_state" where
  "insert_pending p entry ls =
     (let (old, ls) = remove_pending p ls; ls = drop_entry old ls
      in ls\<lparr>pending_dcutr := pending_dcutr ls @ [(p, entry)]\<rparr>)"

definition set_relay_connected :: "'pid \<Rightarrow> 'pid loop_state \<Rightarrow> 'pid loop_state" where
  "set_relay_connected p ls =
     ls\<lparr>pending_dcutr := map (\<lambda>(q, pd). (q, if q = p then pd\<lparr>pd_relay_connected := True\<rparr> else pd))
          (pending_dcutr ls)\<rparr>"

definition next_dcutr_deadline :: "'pid swarm_env \<Rightarrow> 'pid loop_state \<Rightarrow> nat" where
  "next_dcutr_deadline E ls =
     (case map (pd_deadline \<circ> snd) (pending_dcutr ls) of
        [] \<Rightarrow> now E + 86400 * 1000
      | d # ds \<Rightarrow> fold min ds d)"

section \<open>Commands\<close>

text \<open>
  The part that the three arms for sends, puts and gets share: dial a peer that is not
  connected but known, queue the message on the peer's channel, and spawn the task that
  waits for the result.
\<close>

definition start_send ::
  "'pid swarm_env \<Rightarrow> 'pid \<Rightarrow> 'pid wire_header \<Rightarrow> bytes \<Rightarrow> ptr \<Rightarrow> task_kind \<Rightarrow> 'pid loop_state
     \<Rightarrow> 'pid loop_state" where
  "start_send E dest header payload op_ptr kind ls =
     (let ls = (if \<not> is_connected E dest then
                  (case peer_addrs ls dest of Some addr \<Rightarrow> dial dest [addr] ls | None \<Rightarrow> ls)
                else ls);
          (tx, pool') = get_or_create dest (pool ls);
          r = next_result ls;
          msg = \<lparr>om_header = header, om_payload = payload, om_result = Some r\<rparr>
      in ls\<lparr>pool := channel_send tx msg pool', next_result := Suc r,
            tasks := tasks ls @ [\<lparr>st_result = r, st_op = op_ptr, st_kind = kind\<rparr>]\<rparr>)"

definition stop_loop :: "'pid loop_state \<Rightarrow> 'pid loop_state" where
  "stop_loop ls =
     (fold (\<lambda>(p, pd). drop_entry (Some pd)) (pending_dcutr ls) ls)\<lparr>pending_dcutr := [], running := False\<rparr>"

fun handle_command :: "'pid swarm_env \<Rightarrow> 'pid command \<Rightarrow> 'pid loop_state \<Rightarrow> 'pid loop_state" where
  "handle_command E Shutdown ls = stop_loop ls"
| "handle_command E (AddKnownAddr p ma) ls =
     dial p [ma] (add_peer_address p ma (learn_addr p ma ls))"
| "handle_command E (ConnectViaRelay p circuit result_tx) ls =
     (let ls = dial p [circuit] (add_peer_address p circuit (learn_addr p circuit ls)) in
      case dial_error E p [circuit] of
        None \<Rightarrow> insert_pending p
          \<lparr>pd_result_tx = Some result_tx, pd_relay_connected = False, pd_deadline = now E + DCUTR_TIMEOUT\<rparr> ls
      | Some e \<Rightarrow> ls\<lparr>replies := replies ls @ [(result_tx, Some (Failed (''Dial failed: '' @ e)))]\<rparr>)"
| "handle_command E (SendMessage dest ty t payload op_ptr src) ls =
     start_send E dest
       \<lparr>msg_type = ty, tag = t, payload_size = of_nat (length payload), source_peer_id = src,
        handle_id = 0, offset = 0, rma_length = 0, local_handle_id = 0, local_offset = 0\<rparr>
       payload op_ptr SendTask ls"
| "handle_command E (RmaPutCmd dest data remote_id remote_ofs op_ptr src) ls =
     start_send E dest
       \<lparr>msg_type = RmaPut, tag = 0, payload_size = of_nat (length data), source_peer_id = src,
        handle_id = remote_id, offset = remote_ofs, rma_length = of_nat (length data),
        local_handle_id = 0, local_offset = 0\<rparr>
       data op_ptr PutTask ls"
| "handle_command E (RmaGetRequest dest remote_id remote_ofs len local_id local_ofs op_ptr src) ls =
     start_send E dest
       \<lparr>msg_type = RmaGetReq, tag = 0, payload_size = 0, source_peer_id = src,
        handle_id = remote_id, offset = remote_ofs, rma_length = len,
        local_handle_id = local_id, local_offset = local_ofs\<rparr>
       [] op_ptr GetTask ls"

section \<open>Swarm events\<close>

text \<open>The events the loop looks at; an event it only logs is \<open>OtherEvent\<close>.\<close>

datatype 'pid swarm_event =
  ConnectionEstablished 'pid bool "'pid multiaddr"
| ConnectionClosed 'pid nat
| OutgoingConnectionError "'pid option" string
| DcutrEvent 'pid bool
| OtherEvent

definition reconnect ::
  "'pid multiaddr option \<Rightarrow> 'pid option \<Rightarrow> 'pid \<Rightarrow> 'pid loop_state \<Rightarrow> 'pid loop_state" where
  "reconnect relay_ma relay_peer p ls =
     (if relay_peer = Some p then
        (case relay_ma of
           Some ma \<Rightarrow> dial p [] (add_peer_address p (takeWhile (\<lambda>c. \<not> is_p2p c) ma) ls)
         | None \<Rightarrow> ls)
      else (case peer_addrs ls p of
              Some addr \<Rightarrow> dial p [addr] (add_peer_address p addr ls)
            | None \<Rightarrow> ls))"

fun handle_event ::
  "'pid multiaddr option \<Rightarrow> 'pid option \<Rightarrow> 'pid swarm_event \<Rightarrow> 'pid loop_state \<Rightarrow> 'pid loop_state" where
  "handle_event relay_ma relay_peer (ConnectionEstablished p relayed addr) ls =
     (case map_of (pending_dcutr ls) p of
        None \<Rightarrow> ls
      | Some pd \<Rightarrow>
          if relayed then set_relay_connected p ls
          else (let ls = learn_addr p addr ls; (_, ls) = remove_pending p ls
                in answer pd Direct (ls\<lparr>pool := remove_sender p (pool ls)\<rparr>)))"
| "handle_event relay_ma relay_peer (ConnectionClosed p num_established) ls =
     (if num_established = 0 then
        (let ls = reconnect relay_ma relay_peer p ls in ls\<lparr>pool := remove_sender p (pool ls)\<rparr>)
      else ls)"
| "handle_event relay_ma relay_peer (OutgoingConnectionError po err) ls =
     (case po of
        None \<Rightarrow> ls
      | Some p \<Rightarrow>
          (case map_of (pending_dcutr ls) p of
             None \<Rightarrow> ls
           | Some pd \<Rightarrow>
               if \<not> pd_relay_connected pd then
                 (let (_, ls) = remove_pending p ls in answer pd (Failed (''Relay dial failed: '' @ err)) ls)
               else ls))"
| "handle_event relay_ma relay_peer (DcutrEvent p ok) ls =
     (case remove_pending p ls of
        (None, ls') \<Rightarrow> ls'
      | (Some pd, ls') \<Rightarrow>
          if ok then answer pd Direct (ls'\<lparr>pool := remove_sender p (pool ls')\<rparr>)
          else answer pd RelayOnly ls')"
| "handle_event relay_ma relay_peer OtherEvent ls = ls"

section \<open>Deadlines\<close>

text \<open>One expired peer: its entry leaves the map and its channel gets the verdict.\<close>

definition expire :: "('pid \<Rightarrow> string) \<Rightarrow> 'pid \<Rightarrow> 'pid loop_state \<Rightarrow> 'pid loop_state" where
  "expire show_pid p ls =
     (case remove_pending p ls of
        (None, ls') \<Rightarrow> ls'
      | (Some pd, ls') \<Rightarrow>
          if pd_relay_connected pd then answer pd RelayOnly ls'
          else answer pd (Failed (''Timed out connecting to '' @ show_pid p @ '' via relay'')) ls')"

definition handle_deadline :: "('pid \<Rightarrow> string) \<Rightarrow> 'pid swarm_env \<Rightarrow> 'pid loop_state \<Rightarrow> 'pid loop_state" where
  "handle_deadline show_pid E ls =
     (let expired = map fst (filter (\<lambda>(_, pd). pd_deadline pd \<le> now E) (pending_dcutr ls))
      in fold (expire show_pid) expired ls)"

section \<open>The loop\<close>

text \<open>What one turn of \<^verbatim>\<open>tokio::select!\<close> takes: a swarm event or its end, a command or the end of the channel, or the deadline.\<close>

datatype 'pid loop_input =
  Event "'pid swarm_event" | SwarmEnded | Cmd "'pid command" | CmdClosed | DeadlineElapsed

fun loop_turn ::
  "('pid \<Rightarrow> string) \<Rightarrow> 'pid multiaddr option \<Rightarrow> 'pid option \<Rightarrow> 'pid swarm_env \<Rightarrow> 'pid loop_input \<Rightarrow> 'pid loop_state
     \<Rightarrow> 'pid loop_state" where
  "loop_turn show_pid relay_ma relay_peer E (Event ev) ls = handle_event relay_ma relay_peer ev ls"
| "loop_turn show_pid relay_ma relay_peer E SwarmEnded ls = stop_loop ls"
| "loop_turn show_pid relay_ma relay_peer E (Cmd c) ls = handle_command E c ls"
| "loop_turn show_pid relay_ma relay_peer E CmdClosed ls = stop_loop ls"
| "loop_turn show_pid relay_ma relay_peer E DeadlineElapsed ls = handle_deadline show_pid E ls"

fun loop_run ::
  "('pid \<Rightarrow> string) \<Rightarrow> 'pid multiaddr option \<Rightarrow> 'pid option \<Rightarrow> ('pid swarm_env \<times> 'pid loop_input) list
     \<Rightarrow> 'pid loop_state \<Rightarrow> 'pid loop_state" where
  "loop_run show_pid relay_ma relay_peer [] ls = ls"
| "loop_run show_pid relay_ma relay_peer ((E, i) # is) ls =
     (if running ls then
        loop_run show_pid relay_ma relay_peer is (loop_turn show_pid relay_ma relay_peer E i ls)
      else ls)"

text \<open>
  The end of a waiting task: \<^const>\<open>Inr\<close> is a message that was sent, \<^const>\<open>Inl\<close> an error of the
  writer or a writer that is gone. A get completes here only when its request failed.
\<close>

definition finish_task :: "send_task \<Rightarrow> string + unit \<Rightarrow> 'pid na_state \<Rightarrow> 'pid na_state" where
  "finish_task t outcome w =
     (let na_ret = (case outcome of Inr _ \<Rightarrow> NA_SUCCESS | Inl _ \<Rightarrow> NA_PROTOCOL_ERROR);
          item = \<lparr>ci_op_ptr = st_op t, ci_result = na_ret, ci_recv_info = None\<rparr>
      in if st_kind t = GetTask \<and> na_ret = NA_SUCCESS then w else send_completion item w)"

section \<open>Every relay request is settled once\<close>

definition entry_txs :: "pending_entry \<Rightarrow> nat list" where
  "entry_txs pd = (case pd_result_tx pd of Some tx \<Rightarrow> [tx] | None \<Rightarrow> [])"

definition pending_txs :: "'pid loop_state \<Rightarrow> nat list" where
  "pending_txs ls = concat (map (entry_txs \<circ> snd) (pending_dcutr ls))"

text \<open>The reply channels that are pending or have been answered or dropped.\<close>

definition settled :: "'pid loop_state \<Rightarrow> nat multiset" where
  "settled ls = mset (pending_txs ls) + mset (map fst (replies ls))"

definition loop_ok :: "'pid loop_state \<Rightarrow> bool" where
  "loop_ok ls \<longleftrightarrow> distinct (map fst (pending_dcutr ls))"

text \<open>The part of the state that decides which channels are pending or answered.\<close>

definition relay_part :: "'pid loop_state \<Rightarrow> ('pid \<times> pending_entry) list \<times> (nat \<times> relay_connect_result option) list" where
  "relay_part ls = (pending_dcutr ls, replies ls)"

lemma relay_part_simps [simp]:
  "relay_part (dial p as ls) = relay_part ls"
  "relay_part (add_peer_address p ma ls) = relay_part ls"
  "relay_part (learn_addr p ma ls) = relay_part ls"
  "relay_part (start_send E d h b op k ls) = relay_part ls"
  "relay_part (reconnect rm rp p ls) = relay_part ls"
  "relay_part (ls\<lparr>pool := pl\<rparr>) = relay_part ls"
  by (auto simp: relay_part_def dial_def add_peer_address_def learn_addr_def start_send_def reconnect_def Let_def
      split: prod.splits option.splits)

lemma relay_part_cong:
  assumes "relay_part ls = relay_part ls'"
  shows "settled ls = settled ls'" "loop_ok ls \<longleftrightarrow> loop_ok ls'" "pending_dcutr ls = pending_dcutr ls'"
    "replies ls = replies ls'" "pending_txs ls = pending_txs ls'"
  using assms by (simp_all add: settled_def loop_ok_def pending_txs_def relay_part_def)

lemma filter_out_absent: "p \<notin> fst ` set xs \<Longrightarrow> filter (\<lambda>(q, _). q \<noteq> p) xs = xs"
  by (induction xs) auto

text \<open>What removing the entry of a peer takes away.\<close>

lemma remove_pending_txs:
  assumes "distinct (map fst xs)"
  shows "mset (concat (map (entry_txs \<circ> snd) xs)) =
    (case map_of xs p of None \<Rightarrow> {#} | Some pd \<Rightarrow> mset (entry_txs pd)) +
    mset (concat (map (entry_txs \<circ> snd) (filter (\<lambda>(q, _). q \<noteq> p) xs)))"
  using assms
proof (induction xs)
  case Nil
  then show ?case by simp
next
  case (Cons x xs)
  show ?case
  proof (cases "fst x = p")
    case True
    with Cons.prems have "p \<notin> fst ` set xs" by auto
    with True show ?thesis by (cases x) (simp add: filter_out_absent)
  next
    case False
    with Cons show ?thesis by (cases x) (simp add: union_lcomm)
  qed
qed

lemma remove_pending_simps [simp]:
  "fst (remove_pending p ls) = map_of (pending_dcutr ls) p"
  "replies (snd (remove_pending p ls)) = replies ls"
  "pending_dcutr (snd (remove_pending p ls)) = filter (\<lambda>(q, _). q \<noteq> p) (pending_dcutr ls)"
  "running (snd (remove_pending p ls)) = running ls"
  by (simp_all add: remove_pending_def)

lemma remove_pending_settled:
  assumes "loop_ok ls"
  shows "settled ls = (case map_of (pending_dcutr ls) p of None \<Rightarrow> {#} | Some pd \<Rightarrow> mset (entry_txs pd)) +
    settled (snd (remove_pending p ls))"
  using remove_pending_txs [of "pending_dcutr ls" p] assms
  by (simp add: settled_def pending_txs_def loop_ok_def)

lemma loop_ok_remove [simp]: "loop_ok ls \<Longrightarrow> loop_ok (snd (remove_pending p ls))"
  by (auto simp: loop_ok_def distinct_map intro: inj_on_subset)

lemma answer_settled: "settled (answer pd r ls) = settled ls + mset (entry_txs pd)"
  by (simp add: answer_def settled_def entry_txs_def pending_txs_def split: option.splits)

lemma answer_simps [simp]:
  "pending_dcutr (answer pd r ls) = pending_dcutr ls" "running (answer pd r ls) = running ls"
  "loop_ok (answer pd r ls) = loop_ok ls"
  by (simp_all add: answer_def loop_ok_def split: option.splits)

lemma drop_entry_simps [simp]:
  "pending_dcutr (drop_entry e ls) = pending_dcutr ls" "running (drop_entry e ls) = running ls"
  "loop_ok (drop_entry e ls) = loop_ok ls"
  by (simp_all add: drop_entry_def loop_ok_def split: option.splits)

lemma drop_entry_settled:
  "settled (drop_entry e ls) = settled ls + (case e of None \<Rightarrow> {#} | Some pd \<Rightarrow> mset (entry_txs pd))"
  by (cases e) (simp_all add: drop_entry_def settled_def entry_txs_def pending_txs_def split: option.splits)

text \<open>Removing an entry and answering it keeps the account.\<close>

lemma resolve_settled:
  assumes "loop_ok ls" and "map_of (pending_dcutr ls) p = Some pd"
    and "relay_part ls' = relay_part (snd (remove_pending p ls))"
  shows "settled (answer pd r ls') = settled ls" "loop_ok (answer pd r ls')"
  using remove_pending_settled [OF assms(1), of p] relay_part_cong [OF assms(3)] assms(1,2)
  by (simp_all add: answer_settled union_commute)

lemma insert_pending_settled:
  assumes "loop_ok ls"
  shows "settled (insert_pending p e ls) = settled ls + mset (entry_txs e)" "loop_ok (insert_pending p e ls)"
proof -
  let ?ls = "drop_entry (map_of (pending_dcutr ls) p) (snd (remove_pending p ls))"
  have "settled ?ls = settled ls"
    using remove_pending_settled [OF assms, of p] by (simp add: drop_entry_settled union_commute)
  moreover have "insert_pending p e ls = ?ls\<lparr>pending_dcutr := pending_dcutr ?ls @ [(p, e)]\<rparr>"
    by (simp add: insert_pending_def Let_def split_beta)
  ultimately show "settled (insert_pending p e ls) = settled ls + mset (entry_txs e)"
    by (simp add: settled_def pending_txs_def)
  show "loop_ok (insert_pending p e ls)"
    using loop_ok_remove [OF assms, of p]
    by (auto simp: insert_pending_def Let_def split_beta loop_ok_def)
qed

lemma set_relay_connected_pending:
  "pending_dcutr (set_relay_connected p ls) =
     map (\<lambda>(q, pd). (q, if q = p then pd\<lparr>pd_relay_connected := True\<rparr> else pd)) (pending_dcutr ls)"
  "replies (set_relay_connected p ls) = replies ls"
  "running (set_relay_connected p ls) = running ls"
  by (simp_all add: set_relay_connected_def)

lemma set_relay_connected_settled:
  "settled (set_relay_connected p ls) = settled ls" "loop_ok (set_relay_connected p ls) = loop_ok ls"
proof -
  have txs: "map (entry_txs \<circ> snd) (map (\<lambda>(q, pd). (q, if q = p then pd\<lparr>pd_relay_connected := True\<rparr> else pd)) xs)
      = map (entry_txs \<circ> snd) xs" for xs :: "('a \<times> pending_entry) list"
    by (induction xs) (auto simp: entry_txs_def)
  show "settled (set_relay_connected p ls) = settled ls"
    by (simp only: settled_def pending_txs_def set_relay_connected_pending txs)
  have keys: "map fst (map (\<lambda>(q, pd). (q, if q = p then pd\<lparr>pd_relay_connected := True\<rparr> else pd)) xs)
      = map fst xs" for xs :: "('a \<times> pending_entry) list"
    by (induction xs) auto
  show "loop_ok (set_relay_connected p ls) = loop_ok ls"
    by (simp only: loop_ok_def set_relay_connected_pending keys)
qed

lemma stop_loop_settled: "settled (stop_loop ls) = settled ls" "loop_ok (stop_loop ls)"
proof -
  have "mset (map fst (replies (fold (\<lambda>(p, pd). drop_entry (Some pd)) xs ls)))
      = mset (map fst (replies ls)) + mset (concat (map (entry_txs \<circ> snd) xs))"
    for xs :: "('a \<times> pending_entry) list" and ls :: "'a loop_state"
    by (induction xs arbitrary: ls)
       (auto simp: drop_entry_def entry_txs_def split: option.splits)
  then show "settled (stop_loop ls) = settled ls"
    by (simp add: stop_loop_def settled_def pending_txs_def union_commute)
  show "loop_ok (stop_loop ls)" by (simp add: stop_loop_def loop_ok_def)
qed

lemma expire_settled:
  assumes "loop_ok ls"
  shows "settled (expire sp p ls) = settled ls" "loop_ok (expire sp p ls)"
    "pending_dcutr (expire sp p ls) = filter (\<lambda>(q, _). q \<noteq> p) (pending_dcutr ls)"
    "running (expire sp p ls) = running ls"
proof -
  show "settled (expire sp p ls) = settled ls"
  proof (cases "map_of (pending_dcutr ls) p")
    case None
    with remove_pending_settled [OF assms, of p] show ?thesis by (simp add: expire_def split_beta)
  next
    case (Some pd)
    with resolve_settled(1) [OF assms Some refl] show ?thesis by (simp add: expire_def split_beta)
  qed
  show "loop_ok (expire sp p ls)"
    using assms by (simp add: expire_def split_beta split: option.splits)
  show "pending_dcutr (expire sp p ls) = filter (\<lambda>(q, _). q \<noteq> p) (pending_dcutr ls)"
    by (simp add: expire_def split_beta split: option.splits)
  show "running (expire sp p ls) = running ls"
    by (simp add: expire_def split_beta split: option.splits)
qed

lemma fold_expire:
  "loop_ok ls \<Longrightarrow>
   settled (fold (expire sp) ps ls) = settled ls \<and> loop_ok (fold (expire sp) ps ls) \<and>
   pending_dcutr (fold (expire sp) ps ls) = filter (\<lambda>(q, _). q \<notin> set ps) (pending_dcutr ls) \<and>
   running (fold (expire sp) ps ls) = running ls"
proof (induction ps arbitrary: ls)
  case Nil
  then show ?case by (simp add: case_prod_unfold)
next
  case (Cons p ps)
  have "filter (\<lambda>(q, _). q \<notin> set ps) (filter (\<lambda>(q, _). q \<noteq> p) (pending_dcutr ls))
      = filter (\<lambda>(q, _). q \<notin> set (p # ps)) (pending_dcutr ls)"
    by (auto intro: filter_cong)
  with Cons.IH [OF expire_settled(2) [OF Cons.prems, of sp p]] expire_settled [OF Cons.prems, of sp p]
  show ?case by simp
qed

fun input_requests :: "'pid loop_input \<Rightarrow> nat list" where
  "input_requests (Cmd (ConnectViaRelay p c tx)) = [tx]"
| "input_requests _ = []"

lemma handle_event_settled:
  assumes "loop_ok ls"
  shows "settled (handle_event rm rp ev ls) = settled ls \<and> loop_ok (handle_event rm rp ev ls)"
proof (cases ev)
  case (ConnectionEstablished p relayed addr)
  show ?thesis
  proof (cases "map_of (pending_dcutr ls) p")
    case None
    with ConnectionEstablished assms show ?thesis by simp
  next
    case (Some pd)
    let ?ls = "snd (remove_pending p (learn_addr p addr ls))"
    have "relay_part (?ls\<lparr>pool := remove_sender p (pool ?ls)\<rparr>) = relay_part (snd (remove_pending p ls))"
      by (simp add: relay_part_def learn_addr_def remove_pending_def)
    from resolve_settled [OF assms Some this] ConnectionEstablished Some assms show ?thesis
      by (simp add: set_relay_connected_settled split_beta Let_def)
  qed
next
  case (ConnectionClosed p n)
  have "relay_part (handle_event rm rp ev ls) = relay_part ls"
    using ConnectionClosed by (simp add: Let_def)
  with assms show ?thesis using relay_part_cong by blast
next
  case (OutgoingConnectionError po err)
  show ?thesis
  proof (cases "\<exists>p pd. po = Some p \<and> map_of (pending_dcutr ls) p = Some pd")
    case True
    then obtain p pd where p: "po = Some p" "map_of (pending_dcutr ls) p = Some pd" by blast
    from resolve_settled [OF assms p(2) refl] OutgoingConnectionError p assms show ?thesis
      by (simp add: split_beta)
  next
    case False
    with OutgoingConnectionError assms show ?thesis by (auto split: option.splits)
  qed
next
  case (DcutrEvent p ok)
  show ?thesis
  proof (cases "map_of (pending_dcutr ls) p")
    case None
    with remove_pending_settled [OF assms, of p] DcutrEvent assms show ?thesis
      by (simp add: split_beta)
  next
    case (Some pd)
    let ?ls = "snd (remove_pending p ls)"
    have "relay_part (?ls\<lparr>pool := remove_sender p (pool ?ls)\<rparr>) = relay_part ?ls" by simp
    from resolve_settled [OF assms Some this] resolve_settled [OF assms Some refl] DcutrEvent Some
    show ?thesis by (simp add: split_beta)
  qed
next
  case OtherEvent
  with assms show ?thesis by simp
qed

lemma handle_command_settled:
  assumes "loop_ok ls"
  shows "settled (handle_command E c ls) = settled ls + mset (input_requests (Cmd c)) \<and>
    loop_ok (handle_command E c ls)"
proof (cases c)
  case (ConnectViaRelay p ma tx)
  let ?ls = "dial p [ma] (add_peer_address p ma (learn_addr p ma ls))"
  have part: "relay_part ?ls = relay_part ls" by simp
  note cong = relay_part_cong [OF part]
  show ?thesis
  proof (cases "dial_error E p [ma]")
    case None
    with insert_pending_settled [of ?ls p] ConnectViaRelay cong assms show ?thesis
      by (simp add: entry_txs_def)
  next
    case (Some e)
    with ConnectViaRelay cong assms show ?thesis
      by (simp add: settled_def pending_txs_def loop_ok_def)
  qed
next
  case (AddKnownAddr p ma)
  have "relay_part (handle_command E c ls) = relay_part ls" using AddKnownAddr by simp
  from relay_part_cong [OF this] AddKnownAddr assms show ?thesis by simp
next
  case Shutdown
  then show ?thesis by (simp add: stop_loop_settled)
qed (simp_all add: relay_part_cong [OF relay_part_simps(4)] assms)

lemma loop_turn_settled:
  assumes "loop_ok ls"
  shows "settled (loop_turn sp rm rp E i ls) = settled ls + mset (input_requests i) \<and>
    loop_ok (loop_turn sp rm rp E i ls)"
proof (cases i)
  case (Event ev)
  with handle_event_settled [OF assms] show ?thesis by simp
next
  case (Cmd c)
  with handle_command_settled [OF assms] show ?thesis by simp
next
  case DeadlineElapsed
  with fold_expire [OF assms] show ?thesis by (simp add: handle_deadline_def Let_def)
qed (simp_all add: stop_loop_settled)

lemma loop_run_settled:
  "loop_ok ls \<Longrightarrow> loop_ok (loop_run sp rm rp is ls) \<and>
   settled (loop_run sp rm rp is ls) \<subseteq># settled ls + mset (concat (map (input_requests \<circ> snd) is)) \<and>
   (running (loop_run sp rm rp is ls) \<longrightarrow>
      settled (loop_run sp rm rp is ls) = settled ls + mset (concat (map (input_requests \<circ> snd) is)))"
proof (induction "is" arbitrary: ls)
  case Nil
  then show ?case by simp
next
  case (Cons x xs)
  obtain E i where x: "x = (E, i)" by force
  show ?case
  proof (cases "running ls")
    case True
    from loop_turn_settled [OF Cons.prems, of sp rm rp E i]
      Cons.IH [of "loop_turn sp rm rp E i ls"] True x
    show ?thesis by (simp add: union_assoc)
  next
    case False
    with Cons.prems x show ?thesis by simp
  qed
qed

lemma distinct_submset:
  assumes "mset xs \<subseteq># mset ys" and "distinct ys"
  shows "distinct xs"
proof -
  have "count (mset xs) a = (if a \<in> set xs then 1 else 0)" for a
  proof (cases "a \<in> set xs")
    case True
    have "count (mset xs) a \<le> count (mset ys) a" using assms(1) by (rule mset_subset_eq_count)
    also have "\<dots> \<le> 1" using assms(2) by (auto simp: distinct_count_atmost_1)
    finally show ?thesis using True by (metis count_mset_0_iff le_antisym less_one not_less)
  next
    case False
    then show ?thesis by simp
  qed
  then show ?thesis by (simp add: distinct_count_atmost_1)
qed

text \<open>C30: however the loop runs, and whatever the swarm reports, a relay request is settled at
  most once: no request gets two answers or is answered while it is still pending, and as
  long as the loop runs every request it took is pending or settled.\<close>

theorem relay_requests_settled_once:
  assumes "distinct (concat (map (input_requests \<circ> snd) is))"
  shows "distinct (pending_txs (loop_run sp rm rp is loop_init) @
           map fst (replies (loop_run sp rm rp is loop_init))) \<and>
    (running (loop_run sp rm rp is loop_init) \<longrightarrow>
       set (concat (map (input_requests \<circ> snd) is)) =
       set (pending_txs (loop_run sp rm rp is loop_init)) \<union>
         fst ` set (replies (loop_run sp rm rp is loop_init)))"
proof -
  let ?ls = "loop_run sp rm rp is loop_init" and ?reqs = "concat (map (input_requests \<circ> snd) is)"
  have init: "loop_ok loop_init" "settled loop_init = {#}"
    by (simp_all add: loop_ok_def loop_init_def settled_def pending_txs_def)
  note run = loop_run_settled [OF init(1), of sp rm rp "is", unfolded init(2)]
  have all: "settled ?ls = mset (pending_txs ?ls @ map fst (replies ?ls))" by (simp add: settled_def)
  have "mset (pending_txs ?ls @ map fst (replies ?ls)) \<subseteq># mset ?reqs" using run all by simp
  then have "distinct (pending_txs ?ls @ map fst (replies ?ls))"
    using assms by (rule distinct_submset)
  moreover have "set ?reqs = set (pending_txs ?ls) \<union> fst ` set (replies ?ls)" if "running ?ls"
  proof -
    from run that all have "mset (pending_txs ?ls @ map fst (replies ?ls)) = mset ?reqs" by simp
    from mset_eq_setD [OF this] show ?thesis by simp
  qed
  ultimately show ?thesis by blast
qed

section \<open>Deadlines are kept\<close>

text \<open>The loop sleeps until the earliest deadline of the pending relay connections: no later
  than any of them, and exactly until one of them when there is one.\<close>

lemma next_deadline_earliest:
  "(\<forall>p pd. (p, pd) \<in> set (pending_dcutr ls) \<longrightarrow> next_dcutr_deadline E ls \<le> pd_deadline pd) \<and>
   (pending_dcutr ls \<noteq> [] \<longrightarrow>
      (\<exists>p pd. (p, pd) \<in> set (pending_dcutr ls) \<and> next_dcutr_deadline E ls = pd_deadline pd))"
proof (cases "pending_dcutr ls")
  case Nil
  then show ?thesis by simp
next
  case (Cons x xs)
  let ?ds = "map (pd_deadline \<circ> snd) xs"
  have "next_dcutr_deadline E ls = fold min ?ds (pd_deadline (snd x))"
    by (simp add: next_dcutr_deadline_def Cons)
  also have "\<dots> = Min (set (pd_deadline (snd x) # ?ds))" by (simp only: Min.set_eq_fold)
  finally have min: "next_dcutr_deadline E ls = Min ((pd_deadline \<circ> snd) ` set (pending_dcutr ls))"
    by (simp add: Cons)
  have fin: "finite ((pd_deadline \<circ> snd) ` set (pending_dcutr ls))"
    "(pd_deadline \<circ> snd) ` set (pending_dcutr ls) \<noteq> {}" by (simp_all add: Cons)
  from Min_in [OF fin] obtain q where q: "q \<in> set (pending_dcutr ls)"
    "next_dcutr_deadline E ls = pd_deadline (snd q)" unfolding min by auto
  have "next_dcutr_deadline E ls \<le> pd_deadline pd" if "(p, pd) \<in> set (pending_dcutr ls)" for p pd
    unfolding min using that by (intro Min_le fin(1)) (auto intro: rev_image_eqI)
  with q show ?thesis by (metis prod.collapse)
qed

lemma handle_deadline_pending:
  assumes "loop_ok ls"
  shows "pending_dcutr (handle_deadline sp E ls) = filter (\<lambda>(p, pd). now E < pd_deadline pd) (pending_dcutr ls)"
proof -
  let ?ps = "map fst (filter (\<lambda>(_, pd). pd_deadline pd \<le> now E) (pending_dcutr ls))"
  have "p \<notin> set ?ps \<longleftrightarrow> now E < pd_deadline pd" if "(p, pd) \<in> set (pending_dcutr ls)" for p pd
  proof -
    have "p \<in> set ?ps \<longleftrightarrow> (\<exists>pd'. (p, pd') \<in> set (pending_dcutr ls) \<and> pd_deadline pd' \<le> now E)"
      by (auto intro: rev_image_eqI)
    moreover have "pd' = pd" if "(p, pd') \<in> set (pending_dcutr ls)" for pd'
      using eq_key_imp_eq_value [OF assms [unfolded loop_ok_def] that] \<open>(p, pd) \<in> set (pending_dcutr ls)\<close> .
    ultimately show ?thesis using that by (metis not_le)
  qed
  then have "filter (\<lambda>(q, _). q \<notin> set ?ps) (pending_dcutr ls)
      = filter (\<lambda>(p, pd). now E < pd_deadline pd) (pending_dcutr ls)"
    by (intro filter_cong) auto
  with fold_expire [OF assms, of sp ?ps] show ?thesis by (simp add: handle_deadline_def)
qed

text \<open>The deadline under which a request waits never changes.\<close>

definition waits_until :: "nat \<Rightarrow> nat \<Rightarrow> 'pid loop_state \<Rightarrow> bool" where
  "waits_until tx d ls \<longleftrightarrow>
     (\<forall>p pd. (p, pd) \<in> set (pending_dcutr ls) \<longrightarrow> pd_result_tx pd = Some tx \<longrightarrow> pd_deadline pd \<le> d)"

lemma waits_until_subset:
  "waits_until tx d ls \<Longrightarrow> set (pending_dcutr ls') \<subseteq> set (pending_dcutr ls) \<Longrightarrow> waits_until tx d ls'"
  by (auto simp: waits_until_def)

lemma handle_event_waits:
  assumes "waits_until tx d ls"
  shows "waits_until tx d (handle_event rm rp ev ls)"
proof (cases ev)
  case (ConnectionEstablished p relayed addr)
  have "waits_until tx d (set_relay_connected p ls)"
    using assms by (auto simp: waits_until_def set_relay_connected_pending split: if_splits)
  with assms ConnectionEstablished show ?thesis
    by (auto simp: Let_def split_beta learn_addr_def split: option.splits
        intro!: waits_until_subset [OF assms])
next
  case (ConnectionClosed p n)
  have "relay_part (handle_event rm rp ev ls) = relay_part ls" using ConnectionClosed by (simp add: Let_def)
  from relay_part_cong(3) [OF this] assms show ?thesis by (simp add: waits_until_def)
qed (use assms in \<open>auto simp: split_beta split: option.splits intro!: waits_until_subset [OF assms]\<close>)

lemma handle_command_waits:
  assumes "waits_until tx d ls" and "tx \<notin> set (input_requests (Cmd c))"
  shows "waits_until tx d (handle_command E c ls)"
proof (cases c)
  case (ConnectViaRelay p ma tx')
  with assms show ?thesis
    by (auto simp: waits_until_def Let_def insert_pending_def split_beta dial_def add_peer_address_def
        learn_addr_def remove_pending_def drop_entry_def split: option.splits)
next
  case Shutdown
  then show ?thesis by (simp add: waits_until_def stop_loop_def)
next
  case (AddKnownAddr p ma)
  have "relay_part (handle_command E c ls) = relay_part ls" using AddKnownAddr by simp
  from relay_part_cong(3) [OF this] assms show ?thesis by (simp add: waits_until_def)
qed (use assms in \<open>simp_all add: waits_until_def relay_part_cong(3) [OF relay_part_simps(4)]\<close>)

lemma loop_run_waits:
  "loop_ok ls \<Longrightarrow> waits_until tx d ls \<Longrightarrow> tx \<notin> set (concat (map (input_requests \<circ> snd) is)) \<Longrightarrow>
   waits_until tx d (loop_run sp rm rp is ls)"
proof (induction "is" arbitrary: ls)
  case Nil
  then show ?case by simp
next
  case (Cons x xs)
  obtain E i where x: "x = (E, i)" by force
  have "waits_until tx d (loop_turn sp rm rp E i ls)"
  proof (cases i)
    case (Event ev)
    with handle_event_waits [OF Cons.prems(2)] show ?thesis by simp
  next
    case (Cmd c)
    with handle_command_waits [OF Cons.prems(2)] Cons.prems(3) x show ?thesis by simp
  next
    case DeadlineElapsed
    with Cons.prems(1) show ?thesis
      by (intro waits_until_subset [OF Cons.prems(2)]) (auto simp: handle_deadline_pending)
  qed (simp_all add: waits_until_def stop_loop_def)
  with Cons x loop_turn_settled [OF Cons.prems(1)] show ?case by simp
qed


lemma expire_replies: "x \<in> set (replies ls) \<Longrightarrow> x \<in> set (replies (expire sp q ls))"
  by (auto simp: expire_def split_beta answer_def split: option.splits)

lemma fold_expire_replies:
  "x \<in> set (replies ls) \<Longrightarrow> x \<in> set (replies (fold (expire sp) qs ls))"
proof (induction qs arbitrary: ls)
  case Nil
  then show ?case by simp
next
  case (Cons q qs)
  from Cons.IH [OF expire_replies [OF Cons.prems]] show ?case by simp
qed

text \<open>When the deadline of a pending relay connection has passed, its request is told that
  the relay connection is usable if one was established, and that it failed otherwise.\<close>

lemma deadline_verdict:
  assumes "loop_ok ls" and "(p, pd) \<in> set (pending_dcutr ls)" and "pd_deadline pd \<le> now E"
    and "pd_result_tx pd = Some tx"
  shows "(tx, Some (if pd_relay_connected pd then RelayOnly
                    else Failed (''Timed out connecting to '' @ show_pid p @ '' via relay'')))
         \<in> set (replies (handle_deadline show_pid E ls))"
proof -
  let ?v = "(tx, Some (if pd_relay_connected pd then RelayOnly
                    else Failed (''Timed out connecting to '' @ show_pid p @ '' via relay'')))"
  have "?v \<in> set (replies (fold (expire show_pid) qs l))"
    if "p \<in> set qs" "loop_ok l" "(p, pd) \<in> set (pending_dcutr l)" for qs and l :: "'a loop_state"
    using that
  proof (induction qs arbitrary: l)
    case Nil
    then show ?case by simp
  next
    case (Cons q qs)
    show ?case
    proof (cases "q = p")
      case True
      have "map_of (pending_dcutr l) p = Some pd"
        using Cons.prems by (simp add: loop_ok_def)
      then have "?v \<in> set (replies (expire show_pid q l))"
        using True assms(4) by (simp add: expire_def split_beta answer_def)
      from fold_expire_replies [OF this] show ?thesis by simp
    next
      case False
      with Cons.prems expire_settled [OF Cons.prems(2), of show_pid q]
      show ?thesis by (simp add: Cons.IH)
    qed
  qed
  moreover have "p \<in> set (map fst (filter (\<lambda>(_, pd). pd_deadline pd \<le> now E) (pending_dcutr ls)))"
    using assms(2,3) by (auto intro: rev_image_eqI)
  ultimately show ?thesis
    using assms(1,2) unfolding handle_deadline_def Let_def by blast
qed

section \<open>Relay lookups of connected peers\<close>

text \<open>A relay request for a peer that is already connected is answered with a failure, because
  the swarm refuses a dial that is conditional on being disconnected.\<close>

lemma relay_request_connected_fails:
  assumes "\<And>q as. is_connected E q \<Longrightarrow> dial_error E q as \<noteq> None" and "is_connected E p"
  shows "\<exists>e. (tx, Some (Failed e)) \<in> set (replies (handle_command E (ConnectViaRelay p circuit tx) ls))"
  using assms(1) [OF assms(2), of "[circuit]"] by (auto simp: Let_def)

section \<open>Lost connections\<close>

text \<open>When the last connection to a peer closes, its channel is dropped from the pool, so that
  the next send makes a new one, and the loop dials the peer again if it knows an address of
  it, the relay server at the transport part of its configured address.\<close>

lemma connection_lost_redials:
  "case handle_event relay_ma relay_peer (ConnectionClosed p 0) ls of
     ls' \<Rightarrow> senders (pool ls') p = None \<and> peer_addrs ls' = peer_addrs ls \<and>
       swarm_calls ls' = swarm_calls ls @
         (case (if relay_peer = Some p then map_option (\<lambda>ma. (takeWhile (\<lambda>c. \<not> is_p2p c) ma, [])) relay_ma
                else map_option (\<lambda>addr. (addr, [addr])) (peer_addrs ls p)) of
            Some (addr, addrs) \<Rightarrow> [AddPeerAddress p addr, Dial p addrs]
          | None \<Rightarrow> [])"
  by (auto simp: Let_def reconnect_def dial_def add_peer_address_def remove_sender_def split: option.splits)

section \<open>Outgoing messages\<close>

text \<open>The message that a command puts on the wire, with its destination and operation.\<close>

fun command_message ::
  "'pid command \<Rightarrow> ('pid \<times> 'pid wire_header \<times> bytes \<times> ptr \<times> task_kind) option" where
  "command_message (SendMessage dest ty t payload op_ptr src) =
     Some (dest,
       \<lparr>msg_type = ty, tag = t, payload_size = of_nat (length payload), source_peer_id = src,
        handle_id = 0, offset = 0, rma_length = 0, local_handle_id = 0, local_offset = 0\<rparr>,
       payload, op_ptr, SendTask)"
| "command_message (RmaPutCmd dest data remote_id remote_ofs op_ptr src) =
     Some (dest,
       \<lparr>msg_type = RmaPut, tag = 0, payload_size = of_nat (length data), source_peer_id = src,
        handle_id = remote_id, offset = remote_ofs, rma_length = of_nat (length data),
        local_handle_id = 0, local_offset = 0\<rparr>,
       data, op_ptr, PutTask)"
| "command_message (RmaGetRequest dest remote_id remote_ofs len local_id local_ofs op_ptr src) =
     Some (dest,
       \<lparr>msg_type = RmaGetReq, tag = 0, payload_size = 0, source_peer_id = src,
        handle_id = remote_id, offset = remote_ofs, rma_length = len,
        local_handle_id = local_id, local_offset = local_ofs\<rparr>,
       [], op_ptr, GetTask)"
| "command_message _ = None"

lemma handle_command_message:
  "command_message c = Some (dest, h, payload, op, k) \<Longrightarrow>
   handle_command E c ls = start_send E dest h payload op k ls"
  by (cases c) auto

text \<open>C32: a send, put or get command is queued as the last message of the one channel of its
  destination, behind everything queued there before, and a task with a fresh result channel
  waits for it with the command's operation; the channels of other peers are as before.\<close>

theorem command_queues_message:
  assumes "pool_ok (pool ls)" and "command_message c = Some (dest, h, payload, op, k)"
  shows "case handle_command E c ls of
     ls' \<Rightarrow> pool_ok (pool ls') \<and>
       (\<exists>ch before. (case senders (pool ls') dest of Some tx \<Rightarrow> channels (pool ls') tx | None \<Rightarrow> None) = Some ch \<and>
          ch_peer ch = dest \<and>
          ch_queue ch = before @ [\<lparr>om_header = h, om_payload = payload, om_result = Some (next_result ls)\<rparr>] \<and>
          (case senders (pool ls) dest of
             Some tx \<Rightarrow> if is_closed tx (pool ls) then before = []
                        else map_option ch_queue (channels (pool ls) tx) = Some before
           | None \<Rightarrow> before = [])) \<and>
       tasks ls' = tasks ls @ [\<lparr>st_result = next_result ls, st_op = op, st_kind = k\<rparr>] \<and>
       (\<forall>p. p \<noteq> dest \<longrightarrow> senders (pool ls') p = senders (pool ls) p)"
proof -
  define ls1 where "ls1 = (if \<not> is_connected E dest then
                  (case peer_addrs ls dest of Some addr \<Rightarrow> dial dest [addr] ls | None \<Rightarrow> ls) else ls)"
  have same: "pool ls1 = pool ls" "next_result ls1 = next_result ls" "tasks ls1 = tasks ls"
    by (auto simp: ls1_def dial_def split: option.splits)
  obtain tx pl where got: "get_or_create dest (pool ls) = (tx, pl)" by force
  let ?msg = "\<lparr>om_header = h, om_payload = payload, om_result = Some (next_result ls)\<rparr>"
  have run: "handle_command E c ls = ls1\<lparr>pool := channel_send tx ?msg pl, next_result := Suc (next_result ls),
      tasks := tasks ls @ [\<lparr>st_result = next_result ls, st_op = op, st_kind = k\<rparr>]\<rparr>"
    unfolding handle_command_message [OF assms(2)] start_send_def ls1_def [symmetric]
    by (simp add: same got Let_def)
  have pl: "pool_ok pl" "senders pl dest = Some tx" "\<not> is_closed tx pl"
    "map_option ch_peer (channels pl tx) = Some dest" "\<forall>p. p \<noteq> dest \<longrightarrow> senders pl p = senders (pool ls) p"
    using get_or_create_spec [OF assms(1), of dest] by (simp_all add: got)
  from pl(3,4) obtain ch where ch: "channels pl tx = Some ch" "ch_open ch" "ch_peer ch = dest"
    by (auto simp: is_closed_def split: option.splits)
  have before: "case senders (pool ls) dest of
             Some tx \<Rightarrow> if is_closed tx (pool ls) then ch_queue ch = []
                        else map_option ch_queue (channels (pool ls) tx) = Some (ch_queue ch)
           | None \<Rightarrow> ch_queue ch = []"
    using got ch(1) by (auto simp: get_or_create_def Let_def split: option.splits if_splits)
  have send: "channel_send tx ?msg pl
      = pl\<lparr>channels := (channels pl)(tx \<mapsto> ch\<lparr>ch_queue := ch_queue ch @ [?msg]\<rparr>)\<rparr>"
    using ch by (simp add: channel_send_def)
  have "pool_ok (channel_send tx ?msg pl)" using pl(1) by (rule pool_ok_send)
  with before ch(3) pl(2,5) show ?thesis
    unfolding run by (simp add: send)
qed

section \<open>Concrete runs\<close>

definition example_env :: "u8 swarm_env" where
  "example_env = \<lparr>is_connected = (\<lambda>p. p = 7), dial_error = (\<lambda>p as. if p = 7 then Some ''refused'' else None), now = 500\<rparr>"

definition show_byte :: "u8 \<Rightarrow> string" where
  "show_byte p = [char_of (unat p)]"

theorem relay_requests_settled_once_witness:
  "distinct (concat (map (input_requests \<circ> snd) [(example_env, Cmd (ConnectViaRelay 42 [] 1)), (example_env, Cmd (ConnectViaRelay 43 [] 2))])) \<and>
   (let ls = loop_run show_byte None None
       [(example_env, Cmd (ConnectViaRelay 42 [] 1)), (example_env, Cmd (ConnectViaRelay 43 [] 2))] loop_init
    in running ls \<and> {1, 2} = set (pending_txs ls) \<union> fst ` set (replies ls))"
proof -
  let ?is = "[(example_env, Cmd (ConnectViaRelay 42 [] 1)), (example_env, Cmd (ConnectViaRelay 43 [] 2))]"
  have d: "distinct (concat (map (input_requests \<circ> snd) ?is))" by simp
  have "running (loop_run show_byte None None ?is loop_init)" by code_simp
  with relay_requests_settled_once [OF d, of show_byte None None] d show ?thesis
    by (simp add: Let_def)
qed


theorem command_queues_message_witness:
  "case handle_command example_env (SendMessage 42 Unexpected 9 [1, 2] 10 41) loop_init of
     ls' \<Rightarrow> map_option ch_queue (channels (pool ls') 0) =
       Some [\<lparr>om_header = \<lparr>msg_type = Unexpected, tag = 9, payload_size = 2, source_peer_id = 41,
              handle_id = 0, offset = 0, rma_length = 0, local_handle_id = 0, local_offset = 0\<rparr>,
             om_payload = [1, 2], om_result = Some 0\<rparr>] \<and>
       tasks ls' = [\<lparr>st_result = 0, st_op = 10, st_kind = SendTask\<rparr>]"
proof -
  let ?c = "SendMessage 42 Unexpected 9 [1, 2] 10 41 :: u8 command"
  have "pool_ok (pool (loop_init :: u8 loop_state))" by (simp add: loop_init_def pool_ok_new)
  from command_queues_message [OF this, of ?c 42 _ "[1, 2]" 10 SendTask example_env]
  have "tasks (handle_command example_env ?c loop_init) = [\<lparr>st_result = 0, st_op = 10, st_kind = SendTask\<rparr>]"
    by (simp add: loop_init_def)
  moreover have "map_option ch_queue (channels (pool (handle_command example_env ?c loop_init)) 0) =
       Some [\<lparr>om_header = \<lparr>msg_type = Unexpected, tag = 9, payload_size = 2, source_peer_id = 41,
              handle_id = 0, offset = 0, rma_length = 0, local_handle_id = 0, local_offset = 0\<rparr>,
             om_payload = [1, 2], om_result = Some 0\<rparr>]"
    by (simp add: start_send_def loop_init_def pool_new_def get_or_create_def channel_send_def example_env_def
        dial_def)
  ultimately show ?thesis by simp
qed

end
