(* ===== verification/System.thy ===== *)
theory System
  imports Ownership Incoming Swarm_Loop
begin

text \<open>
  One endpoint as a whole: the client that calls the plugin, the runtime thread with its
  event loop and waiting tasks, and the messages that arrive, interleaved step by step. The
  invariant says that every operation in flight is in exactly one place and still alive; it
  holds in every reachable state as long as the client keeps its side of the contract.
\<close>

section \<open>States and steps\<close>

record 'pid system =
  sys_in :: "'pid incoming_state"
  sys_loop :: "'pid loop_state"

abbreviation na :: "'pid system \<Rightarrow> 'pid na_state" where
  "na s \<equiv> in_na (sys_in s)"

definition set_na :: "'pid na_state \<Rightarrow> 'pid system \<Rightarrow> 'pid system" where
  "set_na w s = s\<lparr>sys_in := (sys_in s)\<lparr>in_na := w\<rparr>\<rparr>"

text \<open>What is fixed when an endpoint starts: the library, and the relay server of the loop.\<close>

record 'pid config =
  cf_lib :: "'pid libp2p"
  cf_show :: "'pid \<Rightarrow> string"
  cf_relay :: "'pid multiaddr option"
  cf_relay_peer :: "'pid option"

text \<open>
  The calls of the client, the steps of Mercury and the application on their own memory and
  completions, and the steps of the runtime.
\<close>

datatype 'pid action =
  OpCreate
| OpDestroy ptr
| AddrLookup "nat \<Rightarrow> relay_connect_result option" string
| AddrSelf
| AddrDup ptr
| AddrDeserialize ptr usize
| AddrFree ptr
| HandleCreate ptr usize u64
| HandleDeserialize ptr usize
| HandleFree ptr
| SendUnexpected ptr nat ptr ptr usize ptr u32 ptr
| SendExpected ptr nat ptr ptr usize ptr u32 ptr
| RecvUnexpected ptr nat ptr ptr usize ptr
| RecvExpected ptr nat ptr ptr usize ptr u32 ptr
| PutData ptr nat ptr ptr u64 ptr u64 usize ptr ptr
| GetData ptr nat ptr ptr u64 ptr u64 usize ptr ptr
| CancelOp ptr ptr
| PollCompletions
| TriggerCompletion
| ChangeMemory "ptr \<rightharpoonup> u8"
| RunCommand "'pid swarm_env"
| TurnLoop "'pid swarm_env" "'pid loop_input"
| TaskEnds nat "string + unit"
| MessageArrives "nat \<Rightarrow> (string + unit) option" "'pid wire_header" bytes

text \<open>When the event loop ends it drops its end of the command channel.\<close>

definition close_commands :: "'pid system \<Rightarrow> 'pid system" where
  "close_commands s =
     (if running (sys_loop s) then s else set_na ((na s)\<lparr>cmd_tx := [], cmd_closed := True\<rparr>) s)"

fun exec :: "'pid config \<Rightarrow> 'pid action \<Rightarrow> 'pid system \<Rightarrow> 'pid system option" where
  "exec cf OpCreate s = Some (set_na (snd (na_libp2p_op_create (na s))) s)"
| "exec cf (OpDestroy p) s = map_option (\<lambda>w. set_na w s) (na_libp2p_op_destroy p (na s))"
| "exec cf (AddrLookup reply name) s =
     Some (set_na (snd (snd (na_libp2p_addr_lookup (cf_lib cf) reply name (na s)))) s)"
| "exec cf AddrSelf s = Some (set_na (snd (snd (na_libp2p_addr_self (na s)))) s)"
| "exec cf (AddrDup p) s = map_option (\<lambda>(r, out, w). set_na w s) (na_libp2p_addr_dup p (na s))"
| "exec cf (AddrDeserialize buf n) s =
     map_option (\<lambda>(r, out, w). set_na w s) (na_libp2p_addr_deserialize (cf_lib cf) False buf n (na s))"
| "exec cf (AddrFree p) s = map_option (\<lambda>w. set_na w s) (na_libp2p_addr_free p (na s))"
| "exec cf (HandleCreate buf n flags) s =
     Some (set_na (snd (snd (na_libp2p_mem_handle_create buf n flags (na s)))) s)"
| "exec cf (HandleDeserialize buf n) s =
     map_option (\<lambda>(r, out, w). set_na w s) (na_libp2p_mem_handle_deserialize (cf_lib cf) False buf n (na s))"
| "exec cf (HandleFree p) s = map_option (\<lambda>w. set_na w s) (na_libp2p_mem_handle_free p (na s))"
| "exec cf (SendUnexpected c cb arg buf n dest t op) s =
     map_option (\<lambda>(r, w). set_na w s) (na_libp2p_msg_send_unexpected c cb arg buf n dest t op (na s))"
| "exec cf (SendExpected c cb arg buf n dest t op) s =
     map_option (\<lambda>(r, w). set_na w s) (na_libp2p_msg_send_expected c cb arg buf n dest t op (na s))"
| "exec cf (RecvUnexpected c cb arg buf n op) s =
     map_option (\<lambda>(r, w). set_na w s) (na_libp2p_msg_recv_unexpected c cb arg buf n op (na s))"
| "exec cf (RecvExpected c cb arg buf n src t op) s =
     map_option (\<lambda>(r, w). set_na w s) (na_libp2p_msg_recv_expected c cb arg buf n src t op (na s))"
| "exec cf (PutData c cb arg lh lo rh ro n dest op) s =
     map_option (\<lambda>(r, w). set_na w s) (na_libp2p_put c cb arg lh lo rh ro n dest op (na s))"
| "exec cf (GetData c cb arg lh lo rh ro n dest op) s =
     map_option (\<lambda>(r, w). set_na w s) (na_libp2p_get c cb arg lh lo rh ro n dest op (na s))"
| "exec cf (CancelOp c p) s = map_option (\<lambda>(r, w). set_na w s) (na_libp2p_cancel c p (na s))"
| "exec cf PollCompletions s = map_option (\<lambda>(r, n, w). set_na w s) (na_libp2p_poll (na s))"
| "exec cf TriggerCompletion s = Some (set_na ((na s)\<lparr>na_completions := tl (na_completions (na s))\<rparr>) s)"
| "exec cf (ChangeMemory m) s = Some (set_na ((na s)\<lparr>memory := m\<rparr>) s)"
| "exec cf (RunCommand E) s =
     Some (close_commands (set_na ((na s)\<lparr>cmd_tx := tl (cmd_tx (na s))\<rparr>)
       (s\<lparr>sys_loop := handle_command E (hd (cmd_tx (na s))) (sys_loop s)\<rparr>)))"
| "exec cf (TurnLoop E i) s =
     Some (close_commands
       (s\<lparr>sys_loop := loop_turn (cf_show cf) (cf_relay cf) (cf_relay_peer cf) E i (sys_loop s)\<rparr>))"
| "exec cf (TaskEnds i outcome) s =
     Some (set_na (finish_task (tasks (sys_loop s) ! i) outcome (na s))
       (s\<lparr>sys_loop := (sys_loop s)\<lparr>tasks := remove_at i (tasks (sys_loop s))\<rparr>\<rparr>))"
| "exec cf (MessageArrives outcome h payload) s =
     map_option (\<lambda>(r, st). s\<lparr>sys_in := st\<rparr>) (dispatch outcome (h, payload) (sys_in s))"

section \<open>Operations in flight\<close>

text \<open>
  The operation of a command and of a waiting task. A get waits in \<open>pending_rma_ops\<close> already;
  its command and its task only hold another pointer to it.
\<close>

fun command_ops :: "'pid command \<Rightarrow> ptr list" where
  "command_ops (SendMessage dest ty t payload op src) = [op]"
| "command_ops (RmaPutCmd dest data rid ro op src) = [op]"
| "command_ops _ = []"

definition task_ops :: "send_task \<Rightarrow> ptr list" where
  "task_ops t = (if st_kind t = GetTask then [] else [st_op t])"

definition busy_ops :: "'pid na_state \<Rightarrow> send_task list \<Rightarrow> ptr list" where
  "busy_ops w ts =
     waiting_ops w @ map ci_op_ptr (completion_rx w) @ map snd (na_completions w) @
     concat (map command_ops (cmd_tx w)) @ concat (map task_ops ts)"

definition busy :: "'pid system \<Rightarrow> ptr list" where
  "busy s = busy_ops (na s) (tasks (sys_loop s))"

text \<open>Operations that a step puts in flight, and those that leave.\<close>

fun posted :: "'pid action \<Rightarrow> 'pid system \<Rightarrow> ptr list" where
  "posted (SendUnexpected c cb arg buf n dest t op) s = (if cmd_closed (na s) then [] else [op])"
| "posted (SendExpected c cb arg buf n dest t op) s = (if cmd_closed (na s) then [] else [op])"
| "posted (PutData c cb arg lh lo rh ro n dest op) s = (if cmd_closed (na s) then [] else [op])"
| "posted (RecvUnexpected c cb arg buf n op) s = [op]"
| "posted (RecvExpected c cb arg buf n src t op) s = [op]"
| "posted (GetData c cb arg lh lo rh ro n dest op) s = [op]"
| "posted _ s = []"

fun retired :: "'pid config \<Rightarrow> 'pid action \<Rightarrow> 'pid system \<Rightarrow> ptr list" where
  "retired cf TriggerCompletion s = [snd (hd (na_completions (na s)))]"
| "retired cf (RunCommand E) s =
     (if running (handle_command E (hd (cmd_tx (na s))) (sys_loop s)) then []
      else concat (map command_ops (tl (cmd_tx (na s)))))"
| "retired cf (TurnLoop E i) s =
     (if running (loop_turn (cf_show cf) (cf_relay cf) (cf_relay_peer cf) E i (sys_loop s)) then []
      else concat (map command_ops (cmd_tx (na s))))"
| "retired cf _ s = []"

section \<open>The contract of the environment\<close>

text \<open>
  What the client promises: an operation it posts or destroys is alive and not in flight, its
  addresses, handles and buffers are alive, it frees no address that the plugin owns or a
  posted receive filters on, and posted or registered buffers stay allocated. Runtime steps
  are taken when there is something to do; the request of a get is assumed to be sent.
\<close>

definition idle :: "ptr \<Rightarrow> 'pid system \<Rightarrow> bool" where
  "idle p s \<longleftrightarrow> p \<in> dom (op_box (na s)) \<and> p \<notin> set (busy s)"

definition dest_ok :: "ptr \<Rightarrow> 'pid system \<Rightarrow> bool" where
  "dest_ok a s \<longleftrightarrow> a \<in> dom (addr_box (na s))"

definition rma_ok :: "ptr \<Rightarrow> u64 \<Rightarrow> ptr \<Rightarrow> usize \<Rightarrow> 'pid system \<Rightarrow> bool" where
  "rma_ok lh lo rh n s \<longleftrightarrow> rh \<in> dom (mh_box (na s)) \<and>
     (case mh_box (na s) lh of
        None \<Rightarrow> False
      | Some h \<Rightarrow> mh_buf h \<noteq> null_ptr \<longrightarrow> region (mh_buf h + unat lo) (unat n) (memory (na s)))"

fun contract :: "'pid action \<Rightarrow> 'pid system \<Rightarrow> bool" where
  "contract (OpDestroy p) s \<longleftrightarrow> p = null_ptr \<or> idle p s"
| "contract (AddrDup p) s \<longleftrightarrow> p = null_ptr \<or> dest_ok p s"
| "contract (AddrDeserialize buf n) s \<longleftrightarrow> buffer_ok buf n (na s)"
| "contract (AddrFree p) s \<longleftrightarrow>
     p = null_ptr \<or> dest_ok p s \<and> p \<notin> set (owned_addrs (na s)) \<and> p \<notin> filter_addrs (na s)"
| "contract (HandleCreate buf n flags) s \<longleftrightarrow> region buf (unat n) (memory (na s))"
| "contract (HandleDeserialize buf n) s \<longleftrightarrow> buffer_ok buf n (na s)"
| "contract (HandleFree p) s \<longleftrightarrow> p = null_ptr \<or> p \<in> dom (mh_box (na s))"
| "contract (SendUnexpected c cb arg buf n dest t op) s \<longleftrightarrow>
     idle op s \<and> dest_ok dest s \<and> buffer_ok buf n (na s)"
| "contract (SendExpected c cb arg buf n dest t op) s \<longleftrightarrow>
     idle op s \<and> dest_ok dest s \<and> buffer_ok buf n (na s)"
| "contract (RecvUnexpected c cb arg buf n op) s \<longleftrightarrow> idle op s \<and> buffer_ok buf n (na s)"
| "contract (RecvExpected c cb arg buf n src t op) s \<longleftrightarrow>
     idle op s \<and> buffer_ok buf n (na s) \<and>
     (src = null_ptr \<or> dest_ok src s \<and> src \<notin> set (owned_addrs (na s)))"
| "contract (PutData c cb arg lh lo rh ro n dest op) s \<longleftrightarrow> idle op s \<and> dest_ok dest s \<and> rma_ok lh lo rh n s"
| "contract (GetData c cb arg lh lo rh ro n dest op) s \<longleftrightarrow> idle op s \<and> dest_ok dest s \<and> rma_ok lh lo rh n s"
| "contract TriggerCompletion s \<longleftrightarrow> na_completions (na s) \<noteq> []"
| "contract (ChangeMemory m) s \<longleftrightarrow> buffers_kept m (na s)"
| "contract (RunCommand E) s \<longleftrightarrow> running (sys_loop s) \<and> cmd_tx (na s) \<noteq> []"
| "contract (TurnLoop E i) s \<longleftrightarrow> running (sys_loop s) \<and> (case i of Cmd c \<Rightarrow> False | _ \<Rightarrow> True)"
| "contract (TaskEnds i outcome) s \<longleftrightarrow>
     i < length (tasks (sys_loop s)) \<and> (st_kind (tasks (sys_loop s) ! i) = GetTask \<longrightarrow> outcome = Inr ())"
| "contract _ s \<longleftrightarrow> True"

section \<open>The invariant and what a step must show\<close>

definition sys_inv :: "'pid system \<Rightarrow> bool" where
  "sys_inv s \<longleftrightarrow> na_inv (na s) \<and> distinct (busy s) \<and> set (busy s) \<subseteq> dom (op_box (na s))"

fun destroyed :: "'pid action \<Rightarrow> ptr set" where
  "destroyed (OpDestroy p) = {p}"
| "destroyed _ = {}"

definition safe_step :: "'pid config \<Rightarrow> 'pid action \<Rightarrow> 'pid system \<Rightarrow> bool" where
  "safe_step cf a s \<longleftrightarrow>
     (case exec cf a s of
        None \<Rightarrow> False
      | Some s' \<Rightarrow>
          na_inv (na s') \<and>
          mset (busy s') + mset (retired cf a s) = mset (busy s) + mset (posted a s) \<and>
          dom (op_box (na s)) - destroyed a \<subseteq> dom (op_box (na s')))"

lemma set_na_simps [simp]:
  "na (set_na w s) = w" "sys_loop (set_na w s) = sys_loop s" "set_na (na s) s = s"
  by (simp_all add: set_na_def)

lemma busy_set_na [simp]: "busy (set_na w s) = busy_ops w (tasks (sys_loop s))"
  by (simp add: busy_def)

lemma posted_idle:
  assumes "contract a s" and "p \<in> set (posted a s)"
  shows "idle p s" and "p \<notin> destroyed a"
  using assms by (cases a; auto split: if_splits)+

lemma posted_distinct: "distinct (posted a s)"
  by (cases a) auto

lemma destroyed_not_busy:
  assumes "sys_inv s" and "contract a s"
  shows "destroyed a \<inter> set (busy s) = {}"
proof (cases a)
  case (OpDestroy p)
  have "0 \<notin> set (busy s)"
    using assms(1) heap_not_null(1) [OF na_invD(1)] by (auto simp: sys_inv_def)
  with OpDestroy assms(2) show ?thesis by (auto simp: idle_def)
qed auto

text \<open>A step that shows these keeps the invariant.\<close>

lemma safe_step_inv:
  assumes "sys_inv s" and "contract a s" and "safe_step cf a s"
  shows "\<exists>s'. exec cf a s = Some s' \<and> sys_inv s' \<and>
    mset (busy s') + mset (retired cf a s) = mset (busy s) + mset (posted a s)"
proof -
  from assms(3) obtain s' where s': "exec cf a s = Some s'" "na_inv (na s')"
    "mset (busy s') + mset (retired cf a s) = mset (busy s) + mset (posted a s)"
    "dom (op_box (na s)) - destroyed a \<subseteq> dom (op_box (na s'))"
    by (auto simp: safe_step_def split: option.splits)
  have sub: "mset (busy s') \<subseteq># mset (busy s @ posted a s)"
    using mset_subset_eq_add_left [of "mset (busy s')" "mset (retired cf a s)"] by (simp add: s'(3))
  have "distinct (busy s @ posted a s)"
    using assms(1) posted_distinct [of a s] posted_idle(1) [OF assms(2)] by (auto simp: sys_inv_def idle_def)
  with sub have "distinct (busy s')" by (rule distinct_submset)
  moreover have "set (busy s') \<subseteq> set (busy s) \<union> set (posted a s)"
    using set_mset_mono [OF sub] by simp
  then have "set (busy s') \<subseteq> dom (op_box (na s)) - destroyed a"
    using assms(1) posted_idle [OF assms(2)] destroyed_not_busy [OF assms(1,2)]
    by (fastforce simp: sys_inv_def idle_def)
  ultimately show ?thesis using s' by (auto simp: sys_inv_def)
qed

section \<open>Every step is safe\<close>

lemmas busy_simps = busy_def busy_ops_def waiting_ops_def

lemma recv_ops_busy: "recv_ops (na s) \<subseteq> set (busy s)"
  by (auto simp: recv_ops_def busy_simps)

lemma idleD:
  assumes "idle p s"
  shows "p \<in> dom (op_box (na s))" and "p \<notin> recv_ops (na s)" and "p \<notin> set (busy s)"
  using assms recv_ops_busy [of s] by (auto simp: idle_def)

lemma safe_op_create:
  assumes "sys_inv s"
  shows "safe_step cf OpCreate s"
  using assms na_inv_op_create [of "na s"]
  by (auto simp: safe_step_def sys_inv_def busy_simps na_libp2p_op_create_def Let_def)

lemma safe_op_destroy:
  assumes "sys_inv s" and "contract (OpDestroy p) s"
  shows "safe_step cf (OpDestroy p) s"
proof (cases "p = null_ptr")
  case True
  with assms show ?thesis by (auto simp: safe_step_def sys_inv_def na_libp2p_op_destroy_def busy_def)
next
  case False
  with assms(2) have idle: "idle p s" by simp
  from na_inv_op_destroy [OF _ idleD(2) [OF idle]] assms(1)
  have "na_inv ((na s)\<lparr>op_box := (op_box (na s))(p := None)\<rparr>)" by (simp add: sys_inv_def)
  with False idleD(1) [OF idle] show ?thesis
    by (auto simp: safe_step_def na_libp2p_op_destroy_def busy_simps)
qed

text \<open>A change of the state that operations in flight do not see.\<close>

definition quiet :: "'pid na_state \<Rightarrow> 'pid na_state \<Rightarrow> bool" where
  "quiet w w' \<longleftrightarrow>
     op_box w' = op_box w \<and> (\<forall>ts. busy_ops w' ts = busy_ops w ts) \<and> (na_inv w \<longrightarrow> na_inv w')"

lemma quiet_step:
  assumes "sys_inv s" and "exec cf a s = Some (set_na w s)" and "quiet (na s) w"
    and "posted a s = []" and "retired cf a s = []"
  shows "safe_step cf a s"
  using assms by (auto simp: safe_step_def quiet_def sys_inv_def busy_def)

lemma quiet_refl [simp]: "quiet w w"
  by (simp add: quiet_def)

lemma quiet_trans: "quiet w1 w2 \<Longrightarrow> quiet w2 w3 \<Longrightarrow> quiet w1 w3"
  by (simp add: quiet_def)

lemma quiet_alloc_addr: "quiet w (snd (alloc_addr a w))"
  using na_inv_alloc_addr [of w a]
  by (auto simp: quiet_def) (simp_all add: alloc_addr_def busy_ops_def waiting_ops_def)

lemma quiet_alloc_mem_handle: "quiet w (snd (alloc_mem_handle h w))"
  using na_inv_alloc_mem_handle [of w h]
  by (auto simp: quiet_def) (simp_all add: alloc_mem_handle_def busy_ops_def waiting_ops_def)

lemma quiet_send_cmd: "command_ops c = [] \<Longrightarrow> quiet w (send_cmd c w)"
  by (simp add: quiet_def) (simp add: send_cmd_def busy_ops_def waiting_ops_def)

lemma quiet_next_chan: "quiet w (w\<lparr>next_chan := k\<rparr>)"
  by (simp add: quiet_def busy_ops_def waiting_ops_def)

lemma quiet_lookup: "quiet w (snd (snd (na_libp2p_addr_lookup L reply name w)))"
proof -
  have relay: "quiet w (send_cmd (ConnectViaRelay pid ma k) (w\<lparr>next_chan := j\<rparr>))" for pid ma k j
    by (rule quiet_trans [OF quiet_next_chan quiet_send_cmd]) simp
  have known: "quiet w (send_cmd (AddKnownAddr pid ma) w)" for pid ma
    by (rule quiet_send_cmd) simp
  note alloc = quiet_alloc_addr quiet_trans [OF relay quiet_alloc_addr] quiet_trans [OF known quiet_alloc_addr]
  show ?thesis
    by (simp add: na_libp2p_addr_lookup_def alloc_boxed_def split_def Let_def relay known alloc
        split: option.split relay_connect_result.split)
qed

text \<open>Addresses and handles.\<close>

lemma safe_addr_lookup: "sys_inv s \<Longrightarrow> safe_step cf (AddrLookup reply name) s"
  by (rule quiet_step [OF _ _ quiet_lookup [of "na s" "cf_lib cf" reply name]]) simp_all

lemma safe_addr_self: "sys_inv s \<Longrightarrow> safe_step cf AddrSelf s"
  by (rule quiet_step [where w = "snd (snd (na_libp2p_addr_self (na s)))"])
     (simp_all add: na_libp2p_addr_self_def addr_dup_boxed_def quiet_alloc_addr split_def)

lemma safe_addr_dup: "sys_inv s \<Longrightarrow> contract (AddrDup p) s \<Longrightarrow> safe_step cf (AddrDup p) s"
proof (cases "p = null_ptr")
  case True
  assume "sys_inv s"
  then show ?thesis by (rule quiet_step [where w = "na s"]) (simp_all add: True na_libp2p_addr_dup_def)
next
  case False
  assume inv: "sys_inv s" and "contract (AddrDup p) s"
  with False obtain b where b: "addr_box (na s) p = Some b" by (auto simp: dest_ok_def)
  let ?a = "\<lparr>peer_id = peer_id b, multiaddr = multiaddr b, is_self = is_self b\<rparr>"
  from inv show ?thesis
    by (rule quiet_step [where w = "snd (alloc_addr ?a (na s))"])
       (simp_all add: False b na_libp2p_addr_dup_def addr_dup_boxed_def split_def Let_def quiet_alloc_addr)
qed

lemma safe_addr_deserialize:
  assumes "sys_inv s" and "contract (AddrDeserialize buf n) s"
  shows "safe_step cf (AddrDeserialize buf n) s"
proof (cases "buf = null_ptr \<or> n < 4")
  case True
  with assms(1) show ?thesis
    by (intro quiet_step [where w = "na s"]) (auto simp: na_libp2p_addr_deserialize_def)
next
  case False
  with assms(2) have "region buf (unat n) (memory (na s))" by (simp add: buffer_ok_def)
  then obtain data where data: "copy_from buf (unat n) (na s) = Some data" by (rule copy_from_total)
  obtain d where d: "decode_addr (cf_lib cf) data = Some d" using decode_addr_total by blast
  show ?thesis
  proof (cases d)
    case None
    with assms(1) False data d show ?thesis
      by (intro quiet_step [where w = "na s"]) (auto simp: na_libp2p_addr_deserialize_def)
  next
    case (Some x)
    let ?a = "\<lparr>peer_id = fst x, multiaddr = snd x, is_self = False\<rparr>"
    from assms(1) False data d Some show ?thesis
      by (intro quiet_step [where w = "snd (alloc_addr ?a (na s))"])
         (auto simp: na_libp2p_addr_deserialize_def alloc_boxed_def split_def Let_def quiet_alloc_addr)
  qed
qed

lemma safe_addr_free:
  assumes "sys_inv s" and "contract (AddrFree p) s"
  shows "safe_step cf (AddrFree p) s"
proof (cases "p = null_ptr")
  case True
  with assms(1) show ?thesis by (intro quiet_step [where w = "na s"]) (simp_all add: na_libp2p_addr_free_def)
next
  case False
  let ?w = "(na s)\<lparr>addr_box := (addr_box (na s))(p := None)\<rparr>"
  from False assms(2) obtain b where "addr_box (na s) p = Some b" by (auto simp: dest_ok_def)
  moreover have "quiet (na s) ?w" using False assms(2)
    by (auto simp: quiet_def na_inv_free_addr) (simp add: busy_ops_def waiting_ops_def)
  ultimately show ?thesis using False assms(1)
    by (intro quiet_step [where w = ?w]) (simp_all add: na_libp2p_addr_free_def free_addr_def)
qed

lemma safe_handle_create:
  assumes "sys_inv s" and "contract (HandleCreate buf n flags) s"
  shows "safe_step cf (HandleCreate buf n flags) s"
proof -
  let ?e = "\<lparr>me_buf = buf, me_buf_size = n, me_flags = flags\<rparr>"
  let ?w = "(na s)\<lparr>next_mem_handle_id := next_mem_handle_id (na s) + 1\<rparr>"
  let ?w1 = "?w\<lparr>mem_handles := (mem_handles ?w)(next_mem_handle_id (na s) \<mapsto> ?e)\<rparr>"
  have "quiet (na s) ?w1"
    using na_inv_register [of ?w "Some ?e" "next_mem_handle_id (na s)"] assms(2)
    by (auto simp: quiet_def) (simp add: busy_ops_def waiting_ops_def)
  then have "quiet (na s) (snd (alloc_mem_handle h ?w1))" for h
    using quiet_alloc_mem_handle by (rule quiet_trans)
  with assms(1) show ?thesis
    by (intro quiet_step)
       (auto simp: na_libp2p_mem_handle_create_def next_handle_id_def split_def Let_def)
qed

lemma safe_handle_deserialize:
  assumes "sys_inv s" and "contract (HandleDeserialize buf n) s"
  shows "safe_step cf (HandleDeserialize buf n) s"
proof (cases "buf = null_ptr \<or> n < 26")
  case True
  with assms(1) show ?thesis
    by (intro quiet_step [where w = "na s"]) (auto simp: na_libp2p_mem_handle_deserialize_def)
next
  case False
  with assms(2) have "region buf (unat n) (memory (na s))" by (simp add: buffer_ok_def)
  then obtain data where data: "copy_from buf (unat n) (na s) = Some data" "length data = unat n"
    by (rule copy_from_total)
  then have "26 \<le> length data" using False by (simp add: word_less_nat_alt)
  then obtain d where d: "decode_mem_handle (cf_lib cf) data = Some d" using decode_mem_handle_total by blast
  show ?thesis
  proof (cases d)
    case None
    with assms(1) False data d show ?thesis
      by (intro quiet_step [where w = "na s"]) (auto simp: na_libp2p_mem_handle_deserialize_def)
  next
    case (Some h)
    from assms(1) False data d Some show ?thesis
      by (intro quiet_step [where w = "snd (alloc_mem_handle h (na s))"])
         (auto simp: na_libp2p_mem_handle_deserialize_def split_def Let_def quiet_alloc_mem_handle)
  qed
qed

lemma safe_handle_free:
  assumes "sys_inv s" and "contract (HandleFree p) s"
  shows "safe_step cf (HandleFree p) s"
proof (cases "p = null_ptr")
  case True
  with assms(1) show ?thesis
    by (intro quiet_step [where w = "na s"]) (simp_all add: na_libp2p_mem_handle_free_def)
next
  case False
  let ?w = "(na s)\<lparr>mh_box := (mh_box (na s))(p := None)\<rparr>"
  from False assms(2) obtain h where h: "mh_box (na s) p = Some h" by auto
  let ?w' = "if mh_owner_peer_id h = None
     then ?w\<lparr>mem_handles := (mem_handles ?w)(mh_handle_id h := None)\<rparr> else ?w"
  have "quiet (na s) ?w'"
    using na_inv_mh_box_del [of "na s" p] na_inv_register [of ?w None "mh_handle_id h"]
    by (auto simp: quiet_def) (simp_all add: busy_ops_def waiting_ops_def)
  with False h assms(1) show ?thesis
    by (intro quiet_step [where w = ?w']) (simp_all add: na_libp2p_mem_handle_free_def Let_def)
qed

lemma safe_change_memory:
  "sys_inv s \<Longrightarrow> contract (ChangeMemory m) s \<Longrightarrow> safe_step cf (ChangeMemory m) s"
  by (rule quiet_step)
     (auto simp: quiet_def na_inv_memory busy_ops_def waiting_ops_def)

text \<open>Sends and puts: the operation travels in the command.\<close>

lemma message_payload_total:
  assumes "buffer_ok buf n w"
  obtains bs where "message_payload buf n w = Some bs"
proof (cases "n > 0 \<and> buf \<noteq> null_ptr")
  case True
  with assms obtain bs where "copy_from buf (unat n) w = Some bs"
    by (auto simp: buffer_ok_def elim: copy_from_total)
  with True that show thesis by (simp add: message_payload_def)
next
  case False
  with that show thesis by (auto simp: message_payload_def)
qed

lemma safe_command:
  assumes "sys_inv s" and "idle p s" and "command_ops c = [p]"
    and "exec cf a s = Some (set_na (send_cmd c ((na s)\<lparr>op_box := (op_box (na s))(p \<mapsto> op)\<rparr>)) s)"
    and "posted a s = (if cmd_closed (na s) then [] else [p])" and "retired cf a s = []" and "destroyed a = {}"
  shows "safe_step cf a s"
proof -
  have "na_inv ((na s)\<lparr>op_box := (op_box (na s))(p \<mapsto> op)\<rparr>)"
    using assms(1) idleD(1,2) [OF assms(2)] by (intro na_inv_put_op) (simp_all add: sys_inv_def)
  with assms(3-) show ?thesis
    by (auto simp: safe_step_def) (auto simp: send_cmd_def busy_simps)
qed

lemma safe_send_unexpected:
  assumes "sys_inv s" and "contract (SendUnexpected c cb arg buf n dest t p) s"
  shows "safe_step cf (SendUnexpected c cb arg buf n dest t p) s"
proof -
  from assms(2) obtain d where d: "addr_box (na s) dest = Some d" by (auto simp: dest_ok_def)
  from assms(2) obtain op where op: "op_box (na s) p = Some op" by (auto simp: idle_def)
  from assms(2) obtain bs where bs: "message_payload buf n (na s) = Some bs"
    by (auto elim: message_payload_total)
  from assms d op bs show ?thesis
    by (intro safe_command [where p = p and c = "SendMessage (peer_id d) Unexpected t bs p (peer_id (self_addr (na s)))"])
       (auto simp: na_libp2p_msg_send_unexpected_def put_op_def Let_def)
qed

lemma safe_send_expected:
  assumes "sys_inv s" and "contract (SendExpected c cb arg buf n dest t p) s"
  shows "safe_step cf (SendExpected c cb arg buf n dest t p) s"
proof -
  from assms(2) obtain d where d: "addr_box (na s) dest = Some d" by (auto simp: dest_ok_def)
  from assms(2) obtain op where op: "op_box (na s) p = Some op" by (auto simp: idle_def)
  from assms(2) obtain bs where bs: "message_payload buf n (na s) = Some bs"
    by (auto elim: message_payload_total)
  from assms d op bs show ?thesis
    by (intro safe_command [where p = p and c = "SendMessage (peer_id d) Expected t bs p (peer_id (self_addr (na s)))"])
       (auto simp: na_libp2p_msg_send_expected_def put_op_def Let_def)
qed

lemma put_data_total:
  assumes "mh_buf h \<noteq> null_ptr \<longrightarrow> region (mh_buf h + unat lo) (unat n) (memory w)"
  obtains bs where "put_data h lo n w = Some bs"
proof (cases "n > 0 \<and> mh_buf h \<noteq> null_ptr")
  case True
  with assms obtain bs where "copy_from (mh_buf h + unat lo) (unat n) w = Some bs"
    by (auto elim: copy_from_total)
  with True that show thesis by (simp add: put_data_def)
next
  case False
  with that show thesis by (auto simp: put_data_def)
qed

lemma safe_put:
  assumes "sys_inv s" and "contract (PutData c cb arg lh lo rh ro n dest p) s"
  shows "safe_step cf (PutData c cb arg lh lo rh ro n dest p) s"
proof -
  from assms(2) obtain d where d: "addr_box (na s) dest = Some d" by (auto simp: dest_ok_def)
  from assms(2) obtain op where op: "op_box (na s) p = Some op" by (auto simp: idle_def)
  from assms(2) obtain l r where h: "mh_box (na s) lh = Some l" "mh_box (na s) rh = Some r"
    "mh_buf l \<noteq> null_ptr \<longrightarrow> region (mh_buf l + unat lo) (unat n) (memory (na s))"
    by (auto simp: rma_ok_def split: option.splits)
  obtain bs where bs: "put_data l lo n (na s) = Some bs" using h(3) by (rule put_data_total)
  from assms d op h(1,2) bs show ?thesis
    by (intro safe_command [where p = p and
          c = "RmaPutCmd (remote_peer r d) bs (mh_handle_id r) ro p (peer_id (self_addr (na s)))"])
       (auto simp: na_libp2p_put_def put_op_def Let_def)
qed

lemma safe_get:
  assumes "sys_inv s" and "contract (GetData c cb arg lh lo rh ro n dest p) s"
  shows "safe_step cf (GetData c cb arg lh lo rh ro n dest p) s"
proof -
  from assms(2) obtain d where d: "addr_box (na s) dest = Some d" by (auto simp: dest_ok_def)
  from assms(2) obtain op where op: "op_box (na s) p = Some op" by (auto simp: idle_def)
  from assms(2) obtain l r where h: "mh_box (na s) lh = Some l" "mh_box (na s) rh = Some r"
    by (auto simp: rma_ok_def split: option.splits)
  let ?op = "op\<lparr>op_callback := cb, op_arg := arg, op_type := Some CB_GET, op_context := c,
     op_local_handle_id := mh_handle_id l, op_local_offset := lo, op_rma_length := n\<rparr>"
  let ?w = "(na s)\<lparr>op_box := (op_box (na s))(p \<mapsto> ?op)\<rparr>"
  have "na_inv ?w"
    using assms idleD(1,2) [of p s] by (intro na_inv_put_op) (simp_all add: sys_inv_def)
  from na_inv_withdraw [OF this, of "unexpected_recv_ops (queues ?w)" "expected_recv_ops (queues ?w)"
      "pending_rma_ops (queues ?w) @ [p]"]
  have "na_inv (?w\<lparr>queues := (queues ?w)\<lparr>pending_rma_ops := pending_rma_ops (queues ?w) @ [p]\<rparr>\<rparr>)"
    by simp
  with d op h show ?thesis
    by (simp add: safe_step_def na_libp2p_get_def put_op_def Let_def)
       (auto simp: send_cmd_def busy_simps)
qed

text \<open>Receives.\<close>

lemma safe_recv_unexpected:
  assumes "sys_inv s" and "contract (RecvUnexpected c cb arg buf n p) s"
  shows "safe_step cf (RecvUnexpected c cb arg buf n p) s"
proof -
  let ?w = "na s" and ?q = "queues (na s)"
  from assms(2) have idle: "idle p s" and buf: "buffer_ok buf n ?w" by simp_all
  from idle obtain op where op: "op_box ?w p = Some op" by (auto simp: idle_def)
  note run = recv_unexpected_eq [OF op buf, of c cb arg]
  let ?op = "unexpected_op c cb arg buf n op"
  have put: "na_inv (?w\<lparr>op_box := (op_box ?w)(p \<mapsto> o')\<rparr>)" for o'
    using assms(1) idleD(1,2) [OF idle] by (intro na_inv_put_op) (simp_all add: sys_inv_def)
  show ?thesis
  proof (cases "unexpected_msg_stash ?q")
    case Nil
    have "posted_ok CB_RECV_UNEXPECTED (?w\<lparr>op_box := (op_box ?w)(p \<mapsto> ?op)\<rparr>) p"
      using buf by (simp add: posted_ok_def unexpected_op_def buffer_ok_def)
    moreover have "0 \<notin> set (owned_addrs ?w)"
      using null_not_owned assms(1) by (auto simp: sys_inv_def)
    ultimately have "na_inv (?w\<lparr>op_box := (op_box ?w)(p \<mapsto> ?op),
        queues := ?q\<lparr>unexpected_recv_ops := unexpected_recv_ops ?q @ [p]\<rparr>\<rparr>)"
      using na_inv_post_unexpected [OF put [of ?op], of p] by (simp add: unexpected_op_def)
    with run Nil show ?thesis by (auto simp: safe_step_def Let_def busy_simps)
  next
    case (Cons m rest)
    from na_inv_overwrite [OF na_inv_unstash_unexpected [OF put, simplified, OF Cons]] run Cons
    show ?thesis by (auto simp: safe_step_def Let_def busy_simps)
  qed
qed

lemma safe_recv_expected:
  assumes "sys_inv s" and "contract (RecvExpected c cb arg buf n src t p) s"
  shows "safe_step cf (RecvExpected c cb arg buf n src t p) s"
proof -
  let ?w = "na s" and ?q = "queues (na s)"
  from assms(2) have idle: "idle p s" and buf: "buffer_ok buf n ?w"
    and src: "src = null_ptr \<or> addr_box ?w src \<noteq> None" "src = null_ptr \<or> src \<notin> set (owned_addrs ?w)"
    by (auto simp: dest_ok_def)
  from idle obtain op where op: "op_box ?w p = Some op" by (auto simp: idle_def)
  have inv: "na_inv ?w" using assms(1) by (simp add: sys_inv_def)
  then have "\<forall>m\<in>set (expected_msg_stash ?q). stashed_ok ?w m"
    using na_inv_queues_ok by (auto simp: queues_ok_def)
  note run = recv_expected_eq [OF op buf src(1) this, of c cb arg t]
  let ?op = "expected_op c cb arg buf n src t op"
  have put: "na_inv (?w\<lparr>op_box := (op_box ?w)(p \<mapsto> o')\<rparr>)" for o'
    using inv idleD(1,2) [OF idle] by (rule na_inv_put_op)
  show ?thesis
  proof (cases "stash_index p (op_selector ?w ?op) ?w")
    case None
    have "posted_ok CB_RECV_EXPECTED (?w\<lparr>op_box := (op_box ?w)(p \<mapsto> ?op)\<rparr>) p"
      using buf src(1) by (simp add: posted_ok_def expected_op_def buffer_ok_def)
    moreover have "src \<notin> set (owned_addrs ?w)"
      using null_not_owned [OF inv] src(2) by auto
    ultimately have "na_inv (?w\<lparr>op_box := (op_box ?w)(p \<mapsto> ?op),
        queues := ?q\<lparr>expected_recv_ops := expected_recv_ops ?q @ [p]\<rparr>\<rparr>)"
      using na_inv_post_expected [OF put [of ?op], of p] by (simp add: expected_op_def)
    with run None show ?thesis by (auto simp: safe_step_def Let_def busy_simps)
  next
    case (Some i)
    then have i: "i < length (expected_msg_stash ?q)"
      by (auto simp: stash_index_def dest: position_SomeD)
    note un = na_inv_unstash_expected [OF put, simplified, OF i refl]
    let ?m = "expected_msg_stash ?q ! i"
    let ?b = "(addr_box ?w)(sm_source_addr ?m := None)"
    let ?q' = "?q\<lparr>expected_msg_stash := remove_at i (expected_msg_stash ?q)\<rparr>"
    have "na_inv (?w\<lparr>op_box := (op_box ?w)(p \<mapsto> o'), addr_box := ?b, queues := ?q',
        memory := overwrite b bs (memory ?w)\<rparr>)" for o' b bs
    proof -
      have "?w\<lparr>op_box := (op_box ?w)(p \<mapsto> o'), addr_box := ?b, queues := ?q', memory := overwrite b bs (memory ?w)\<rparr>
        = ?w\<lparr>op_box := (op_box ?w)(p \<mapsto> o'), queues := ?q', addr_box := ?b, memory := overwrite b bs (memory ?w)\<rparr>"
        by simp
      moreover have "na_inv \<dots>" using na_inv_overwrite [OF na_inv_free_addr [OF un]] by simp
      ultimately show ?thesis by (simp only:)
    qed
    with run Some show ?thesis by (auto simp: safe_step_def Let_def busy_simps)
  qed
qed

text \<open>Cancellation, progress, and the trigger.\<close>

lemma safe_cancel:
  assumes "sys_inv s"
  shows "safe_step cf (CancelOp c p) s"
proof -
  let ?w = "na s" and ?q = "queues (na s)"
  have inv: "na_inv ?w" and live: "set (busy s) \<subseteq> dom (op_box ?w)" and dist: "distinct (busy s)"
    using assms by (simp_all add: sys_inv_def)
  have "op_box ?w p \<noteq> None"
    if "p \<in> set (unexpected_recv_ops ?q) \<union> set (expected_recv_ops ?q) \<union> set (pending_rma_ops ?q)"
    using that live by (auto simp: busy_simps)
  note run = cancel_eq [OF this, of c]
  let ?op = "(the (op_box ?w p))\<lparr>op_ret := Some NA_CANCELED\<rparr>"
  have done_inv: "na_inv (?w\<lparr>op_box := (op_box ?w)(p \<mapsto> ?op), queues := q'\<rparr>)"
    if "p \<in> dom (op_box ?w)" "na_inv (?w\<lparr>queues := q'\<rparr>)" "p \<notin> recv_ops (?w\<lparr>queues := q'\<rparr>)" for q'
  proof -
    have "?w\<lparr>op_box := (op_box ?w)(p \<mapsto> ?op), queues := q'\<rparr>
        = (?w\<lparr>queues := q'\<rparr>)\<lparr>op_box := (op_box (?w\<lparr>queues := q'\<rparr>))(p \<mapsto> ?op)\<rparr>" by simp
    moreover have "na_inv ((?w\<lparr>queues := q'\<rparr>)\<lparr>op_box := (op_box (?w\<lparr>queues := q'\<rparr>))(p \<mapsto> ?op)\<rparr>)"
      using that(1) by (intro na_inv_put_op [OF that(2) _ that(3)]) simp
    ultimately show ?thesis by (simp only:)
  qed
  consider (u) "p \<in> set (unexpected_recv_ops ?q)" | (e) "p \<notin> set (unexpected_recv_ops ?q)" "p \<in> set (expected_recv_ops ?q)"
    | (r) "p \<notin> set (unexpected_recv_ops ?q)" "p \<notin> set (expected_recv_ops ?q)" "p \<in> set (pending_rma_ops ?q)"
    | (n) "p \<notin> set (unexpected_recv_ops ?q)" "p \<notin> set (expected_recv_ops ?q)" "p \<notin> set (pending_rma_ops ?q)"
    by blast
  then show ?thesis
  proof cases
    case u
    let ?q' = "?q\<lparr>unexpected_recv_ops := remove1 p (unexpected_recv_ops ?q)\<rparr>"
    have "na_inv (?w\<lparr>op_box := (op_box ?w)(p \<mapsto> ?op), queues := ?q'\<rparr>)"
      using na_inv_withdraw [OF inv, of "remove1 p (unexpected_recv_ops ?q)" "expected_recv_ops ?q" "pending_rma_ops ?q"]
        set_remove1_subset [of p] u live dist
      by (intro done_inv) (auto simp: busy_simps recv_ops_def)
    with run u show ?thesis by (auto simp: safe_step_def Let_def busy_simps)
  next
    case e
    let ?q' = "?q\<lparr>expected_recv_ops := remove1 p (expected_recv_ops ?q)\<rparr>"
    have "na_inv (?w\<lparr>op_box := (op_box ?w)(p \<mapsto> ?op), queues := ?q'\<rparr>)"
      using na_inv_withdraw [OF inv, of "unexpected_recv_ops ?q" "remove1 p (expected_recv_ops ?q)" "pending_rma_ops ?q"]
        set_remove1_subset [of p] e live dist
      by (intro done_inv) (auto simp: busy_simps recv_ops_def)
    with run e show ?thesis by (auto simp: safe_step_def Let_def busy_simps)
  next
    case r
    let ?q' = "?q\<lparr>pending_rma_ops := remove1 p (pending_rma_ops ?q)\<rparr>"
    have "na_inv (?w\<lparr>op_box := (op_box ?w)(p \<mapsto> ?op), queues := ?q'\<rparr>)"
      using na_inv_withdraw [OF inv, of "unexpected_recv_ops ?q" "expected_recv_ops ?q" "remove1 p (pending_rma_ops ?q)"]
        r live
      by (intro done_inv) (auto simp: busy_simps recv_ops_def)
    with run r show ?thesis by (auto simp: safe_step_def Let_def busy_simps)
  next
    case n
    with run inv show ?thesis by (auto simp: safe_step_def Let_def busy_def)
  qed
qed

lemma safe_poll:
  assumes "sys_inv s"
  shows "safe_step cf PollCompletions s"
proof -
  let ?w = "na s" and ?cs = "completion_rx (na s)"
  have inv: "na_inv ?w" and live: "set (busy s) \<subseteq> dom (op_box ?w)" and dist: "distinct (busy s)"
    using assms by (simp_all add: sys_inv_def)
  have ops: "distinct (map ci_op_ptr ?cs)" "ci_op_ptr ` set ?cs \<subseteq> dom (op_box ?w)"
    "recv_ops ?w \<inter> ci_op_ptr ` set ?cs = {}"
    using dist live by (auto simp: busy_simps recv_ops_def)
  note run = poll_eq [OF na_inv_completions_ok [OF inv ops(1,2)]]
  have "map snd (reported_contexts ?cs box) = map ci_op_ptr ?cs" for box
    by (simp add: reported_contexts_def o_def)
  moreover have "dom (reported_box ?cs (op_box ?w)) = dom (op_box ?w)"
    by (auto simp: reported_box_def split: option.splits)
  ultimately show ?thesis
    using run na_inv_poll [OF inv ops(3,2)] by (auto simp: safe_step_def busy_simps)
qed

lemma safe_trigger:
  assumes "sys_inv s" and "contract TriggerCompletion s"
  shows "safe_step cf TriggerCompletion s"
  using assms by (cases "na_completions (na s)") (auto simp: safe_step_def sys_inv_def busy_simps)

text \<open>The event loop moves operations from commands to tasks, and touches no others.\<close>

lemma tasks_simps [simp]:
  "tasks (dial p as ls) = tasks ls" "tasks (add_peer_address p ma ls) = tasks ls"
  "tasks (learn_addr p ma ls) = tasks ls" "tasks (answer pd r ls) = tasks ls"
  "tasks (drop_entry e ls) = tasks ls" "tasks (snd (remove_pending p ls)) = tasks ls"
  "tasks (insert_pending p pd ls) = tasks ls" "tasks (set_relay_connected p ls) = tasks ls"
  "tasks (expire sp p ls) = tasks ls" "tasks (reconnect rm rp p ls) = tasks ls"
  by (auto simp: dial_def add_peer_address_def learn_addr_def answer_def drop_entry_def remove_pending_def
      insert_pending_def set_relay_connected_def expire_def reconnect_def Let_def split: option.splits)

lemma tasks_folds [simp]:
  "tasks (fold (\<lambda>(p, pd). drop_entry (Some pd)) xs ls) = tasks ls" "tasks (fold (expire sp) ps ls) = tasks ls"
  by (induction xs arbitrary: ls; simp add: split_def) (induction ps arbitrary: ls; simp)

lemma stop_loop_tasks [simp]: "tasks (stop_loop ls) = tasks ls"
  by (simp add: stop_loop_def)

lemma handle_command_ops:
  "concat (map task_ops (tasks (handle_command E c ls))) = concat (map task_ops (tasks ls)) @ command_ops c"
  by (cases c)
     (auto simp: start_send_def task_ops_def Let_def split_def split: option.splits)

lemma loop_turn_tasks:
  assumes "case i of Cmd c \<Rightarrow> False | _ \<Rightarrow> True"
  shows "tasks (loop_turn sp rm rp E i ls) = tasks ls"
proof (cases i)
  case (Event ev)
  then show ?thesis
    by (cases ev) (auto simp: Let_def split_def remove_pending_def split: option.splits)
qed (use assms in \<open>simp_all add: handle_deadline_def Let_def\<close>)

lemma close_commands_simps [simp]:
  "sys_loop (close_commands s) = sys_loop s" "op_box (na (close_commands s)) = op_box (na s)"
  "na_inv (na (close_commands s)) = na_inv (na s)"
  by (simp_all add: close_commands_def)

lemma safe_run_command:
  assumes "sys_inv s" and "contract (RunCommand E) s"
  shows "safe_step cf (RunCommand E) s"
proof -
  from assms(2) obtain c cs where cs: "cmd_tx (na s) = c # cs" by (cases "cmd_tx (na s)") auto
  with assms(1) show ?thesis
    by (auto simp: safe_step_def sys_inv_def)
       (simp_all add: close_commands_def busy_simps handle_command_ops)
qed

lemma safe_turn_loop:
  assumes "sys_inv s" and "contract (TurnLoop E i) s"
  shows "safe_step cf (TurnLoop E i) s"
  using assms
  by (auto simp: safe_step_def sys_inv_def)
     (simp_all add: close_commands_def busy_simps loop_turn_tasks)

lemma mset_remove_at: "i < length xs \<Longrightarrow> add_mset (xs ! i) (mset (remove_at i xs)) = mset xs"
  by (metis id_take_nth_drop mset.simps(2) mset_append remove_at_def union_mset_add_mset_right)

lemma mset_concat_remove_at:
  assumes "i < length xs"
  shows "mset (concat (map f (remove_at i xs))) + mset (f (xs ! i)) = mset (concat (map f xs))"
proof -
  have "xs = take i xs @ xs ! i # drop (Suc i) xs" using assms by (rule id_take_nth_drop)
  then have "concat (map f xs) = concat (map f (take i xs)) @ f (xs ! i) @ concat (map f (drop (Suc i) xs))"
    by (metis concat.simps(2) concat_append list.map(2) map_append)
  then show ?thesis by (simp add: remove_at_def)
qed

lemma na_inv_completion_sent:
  assumes "na_inv w" and "ci_recv_info c = None"
  shows "na_inv (send_completion c w)"
  using assms by (intro na_inv_send_completion) (simp_all add: item_source_def)

lemma safe_task_ends:
  assumes "sys_inv s" and "contract (TaskEnds i outcome) s"
  shows "safe_step cf (TaskEnds i outcome) s"
proof -
  let ?ts = "tasks (sys_loop s)" and ?t = "tasks (sys_loop s) ! i"
  from assms(2) have i: "i < length ?ts" and get: "st_kind ?t = GetTask \<longrightarrow> outcome = Inr ()" by simp_all
  note moved = mset_concat_remove_at [OF i, of task_ops]
  show ?thesis
  proof (cases "st_kind ?t = GetTask")
    case True
    with get moved assms(1) show ?thesis
      by (auto simp: safe_step_def finish_task_def sys_inv_def busy_simps task_ops_def)
  next
    case False
    then have "mset (concat (map task_ops ?ts)) = add_mset (st_op ?t) (mset (concat (map task_ops (remove_at i ?ts))))"
      using moved by (simp add: task_ops_def)
    with False assms(1) show ?thesis
      by (auto simp: safe_step_def finish_task_def sys_inv_def Let_def na_inv_completion_sent busy_simps)
  qed
qed

text \<open>Incoming messages.\<close>

lemma fresh_not_used:
  assumes "na_inv w"
  shows "next_box w \<notin> set (owned_addrs w)" "next_box w \<notin> filter_addrs w"
proof -
  note inv = na_invD [OF assms] and fresh = heap_fresh(2) [OF na_invD(1) [OF assms]]
  show "next_box w \<notin> set (owned_addrs w)" using inv(3) fresh by (auto simp: owned_ok_def)
  have pos: "next_box w \<noteq> 0" using inv(1) by (simp add: heap_ok_def)
  have "op_addr (the (op_box w p)) = 0 \<or> addr_box w (op_addr (the (op_box w p))) \<noteq> None"
    if "p \<in> recv_ops w" for p
    using inv(2) that
    by (fastforce simp: posted_all_def recv_ops_def posted_ok_def split: option.splits)
  with fresh pos show "next_box w \<notin> filter_addrs w"
    unfolding filter_addrs_def by fastforce
qed

lemma incoming_msg_safe:
  assumes "na_inv w"
  shows "\<exists>w'. handle_incoming_msg h payload b w = Some w' \<and> na_inv w' \<and> op_box w' = op_box w \<and>
    mset (busy_ops w' ts) = mset (busy_ops w ts)"
proof -
  let ?q = "queues w" and ?src = "next_box w"
  let ?a = "fresh_addr (source_peer_id h)"
  let ?w1 = "w\<lparr>addr_box := (addr_box w)(?src \<mapsto> ?a), next_box := Suc ?src\<rparr>"
  note inv = na_invD [OF assms] and fresh = heap_fresh(2) [OF na_invD(1) [OF assms]]
  note run = handle_incoming_eq [OF na_inv_queues_ok [OF assms] fresh, of h payload b]
  have w1: "na_inv ?w1" using na_inv_alloc_addr [OF assms, of ?a] by (simp add: alloc_addr_def)
  have own: "owned_addrs ?w1 = owned_addrs w" "filter_addrs ?w1 = filter_addrs w" by (simp_all add: na_parts)
  show ?thesis
  proof (cases "op_index (source_peer_id h, tag h, payload) b w")
    case None
    let ?m = "\<lparr>sm_payload = payload, sm_source_addr = ?src, sm_tag = tag h\<rparr>"
    have "na_inv (?w1\<lparr>queues := push_stash b ?m (queues ?w1)\<rparr>)"
      by (rule na_inv_stash [OF w1]) (simp_all add: own fresh_not_used [OF assms])
    with None run show ?thesis
      by (auto simp: Let_def) (auto simp: busy_ops_def waiting_ops_def push_stash_def)
  next
    case (Some i)
    let ?ops = "ops_queue b ?q"
    from Some have i: "i < length ?ops"
      by (auto simp: op_index_def ops_queue_def split: if_splits dest: position_SomeD)
    define w2 where "w2 = ?w1\<lparr>queues := set_ops_queue b (remove_at i ?ops) ?q\<rparr>"
    have sub: "set (remove_at i ?ops) \<subseteq> set ?ops" by (rule set_remove_at_subset)
    have "w2 = ?w1\<lparr>queues := (queues ?w1)\<lparr>
        unexpected_recv_ops := (if b then unexpected_recv_ops ?q else remove_at i ?ops),
        expected_recv_ops := (if b then remove_at i ?ops else expected_recv_ops ?q),
        pending_rma_ops := pending_rma_ops ?q\<rparr>\<rparr>"
      by (simp add: w2_def set_ops_queue_def)
    with sub have w2: "na_inv w2"
      using na_inv_withdraw [OF w1, of "if b then unexpected_recv_ops ?q else remove_at i ?ops"
          "if b then remove_at i ?ops else expected_recv_ops ?q" "pending_rma_ops ?q"]
      by (auto simp: ops_queue_def split: if_splits)
    let ?p = "?ops ! i" and ?op = "the (op_box w (?ops ! i))"
    let ?w3 = "w2\<lparr>memory := overwrite (op_buf ?op) (received_bytes (op_buf ?op) (op_buf_size ?op) payload) (memory w2)\<rparr>"
    let ?c = "\<lparr>ci_op_ptr = ?p, ci_result = NA_SUCCESS,
                ci_recv_info = Some \<lparr>ri_actual_size = length payload, ri_source_addr = ?src, ri_tag = tag h\<rparr>\<rparr>"
    have "owned_addrs ?w3 = owned_addrs w" "filter_addrs ?w3 \<subseteq> filter_addrs w"
      using sub by (auto simp: w2_def na_parts set_ops_queue_def ops_queue_def split: if_splits)
    then have "na_inv (send_completion ?c ?w3)"
      using fresh_not_used [OF assms] na_inv_overwrite [OF w2]
      by (intro na_inv_send_completion) (auto simp: item_source_def w2_def)
    moreover have "mset (busy_ops (send_completion ?c ?w3) ts) = mset (busy_ops w ts)"
      using mset_remove_at [OF i]
      by (auto simp: busy_ops_def waiting_ops_def w2_def set_ops_queue_def ops_queue_def)
    ultimately show ?thesis
      using Some run by (simp add: Let_def w2_def)
  qed
qed

lemma rma_put_safe:
  assumes "na_inv w"
  obtains m where "handle_rma_put h payload w = Some (w\<lparr>memory := m\<rparr>)" "na_inv (w\<lparr>memory := m\<rparr>)"
proof (cases "mem_handles w (handle_id h)")
  case None
  with that [of "memory w"] assms show thesis by (simp add: handle_rma_put_def)
next
  case (Some e)
  then have "region (me_buf e) (unat (me_buf_size e)) (memory w)"
    using na_invD(4) [OF assms] by (simp add: handles_ok_def)
  with Some show thesis
    using na_inv_overwrite [OF assms] by (intro that) (auto simp: handle_rma_put_def rma_write_eq)
qed

lemma get_response_safe:
  assumes "na_inv w" and "set (pending_rma_ops (queues w)) \<subseteq> dom (op_box w)"
  shows "\<exists>w'. handle_rma_get_response h payload w = Some w' \<and> na_inv w' \<and> op_box w' = op_box w \<and>
    mset (busy_ops w' ts) = mset (busy_ops w ts)"
proof -
  let ?ops = "pending_rma_ops (queues w)"
  note run = get_response_eq [OF na_invD(4) [OF assms(1)] assms(2), of h payload]
  show ?thesis
  proof (cases "rma_index h w")
    case None
    with run assms(1) show ?thesis by simp
  next
    case (Some i)
    then have i: "i < length ?ops" by (auto simp: rma_index_def dest: position_SomeD)
    let ?w1 = "w\<lparr>queues := (queues w)\<lparr>pending_rma_ops := remove_at i ?ops\<rparr>\<rparr>"
    have w1: "na_inv ?w1"
      using na_inv_withdraw [OF assms(1), of "unexpected_recv_ops (queues w)" "expected_recv_ops (queues w)"
          "remove_at i ?ops"] by simp
    let ?m = "case mem_handles w (local_handle_id h) of
                 None \<Rightarrow> memory w
               | Some e \<Rightarrow> overwrite (me_buf e + unat (local_offset h))
                   (take (clip_len e (local_offset h) (length payload)) payload) (memory w)"
    have "na_inv (?w1\<lparr>memory := ?m\<rparr>)"
    proof (cases "mem_handles w (local_handle_id h)")
      case None
      with w1 show ?thesis by simp
    next
      case (Some e)
      with na_inv_overwrite [OF w1] show ?thesis by simp
    qed
    then have "na_inv (send_completion \<lparr>ci_op_ptr = ?ops ! i, ci_result = NA_SUCCESS, ci_recv_info = None\<rparr>
        (?w1\<lparr>memory := ?m\<rparr>))"
      by (rule na_inv_completion_sent) simp
    with run Some mset_remove_at [OF i] show ?thesis
      by (auto simp: busy_ops_def waiting_ops_def)
  qed
qed

lemma get_request_safe:
  assumes "handles_ok (in_na st)"
  shows "\<exists>r st'. handle_rma_get_request outcome h st = Some (r, st') \<and> in_na st' = in_na st"
proof -
  obtain reply where "rma_get_reply h (in_na st) = Some reply"
    using rma_read_eq [OF assms, of h] by (simp add: rma_get_reply_def)
  then show ?thesis
    by (cases reply) (auto simp: handle_rma_get_request_def Let_def split_def)
qed

lemma safe_message_arrives:
  assumes "sys_inv s"
  shows "safe_step cf (MessageArrives outcome h payload) s"
proof -
  let ?ts = "tasks (sys_loop s)"
  have inv: "na_inv (na s)" using assms by (simp add: sys_inv_def)
  have pending: "set (pending_rma_ops (queues (na s))) \<subseteq> dom (op_box (na s))"
    using assms by (auto simp: sys_inv_def busy_simps)
  have "\<exists>r st. dispatch outcome (h, payload) (sys_in s) = Some (r, st) \<and> na_inv (in_na st) \<and>
      op_box (in_na st) = op_box (na s) \<and> mset (busy_ops (in_na st) ?ts) = mset (busy_ops (na s) ?ts)"
  proof (cases "msg_type h")
    case Unexpected
    with incoming_msg_safe [OF inv, of h payload False ?ts] show ?thesis by (auto simp: dispatch_def)
  next
    case Expected
    with incoming_msg_safe [OF inv, of h payload True ?ts] show ?thesis by (auto simp: dispatch_def)
  next
    case RmaPut
    obtain m where "handle_rma_put h payload (na s) = Some ((na s)\<lparr>memory := m\<rparr>)" "na_inv ((na s)\<lparr>memory := m\<rparr>)"
      using rma_put_safe [OF inv] .
    with RmaPut show ?thesis by (auto simp: dispatch_def busy_ops_def waiting_ops_def)
  next
    case RmaGetReq
    with get_request_safe [OF na_invD(4) [OF inv], of outcome h] inv show ?thesis
      by (auto simp: dispatch_def)
  next
    case RmaGetResp
    with get_response_safe [OF inv pending, of h payload ?ts] show ?thesis by (auto simp: dispatch_def)
  qed
  then show ?thesis by (auto simp: safe_step_def busy_def)
qed

lemma every_step_safe:
  assumes "sys_inv s" and "contract a s"
  shows "safe_step cf a s"
proof (cases a)
  case OpCreate then show ?thesis using assms safe_op_create by blast
next
  case OpDestroy then show ?thesis using assms safe_op_destroy by blast
next
  case AddrLookup then show ?thesis using assms safe_addr_lookup by blast
next
  case AddrSelf then show ?thesis using assms safe_addr_self by blast
next
  case AddrDup then show ?thesis using assms safe_addr_dup by blast
next
  case AddrDeserialize then show ?thesis using assms safe_addr_deserialize by blast
next
  case AddrFree then show ?thesis using assms safe_addr_free by blast
next
  case HandleCreate then show ?thesis using assms safe_handle_create by blast
next
  case HandleDeserialize then show ?thesis using assms safe_handle_deserialize by blast
next
  case HandleFree then show ?thesis using assms safe_handle_free by blast
next
  case SendUnexpected then show ?thesis using assms safe_send_unexpected by blast
next
  case SendExpected then show ?thesis using assms safe_send_expected by blast
next
  case RecvUnexpected then show ?thesis using assms safe_recv_unexpected by blast
next
  case RecvExpected then show ?thesis using assms safe_recv_expected by blast
next
  case PutData then show ?thesis using assms safe_put by blast
next
  case GetData then show ?thesis using assms safe_get by blast
next
  case CancelOp then show ?thesis using assms safe_cancel by blast
next
  case PollCompletions then show ?thesis using assms safe_poll by blast
next
  case TriggerCompletion then show ?thesis using assms safe_trigger by blast
next
  case ChangeMemory then show ?thesis using assms safe_change_memory by blast
next
  case RunCommand then show ?thesis using assms safe_run_command by blast
next
  case TurnLoop then show ?thesis using assms safe_turn_loop by blast
next
  case TaskEnds then show ?thesis using assms safe_task_ends by blast
next
  case MessageArrives then show ?thesis using assms safe_message_arrives by blast
qed

section \<open>Histories\<close>

text \<open>
  A history is a list of steps; \<open>play\<close> runs it and collects the operations that went in
  flight and those that left, and \<open>keeps_contract\<close> says that each step keeps the contract.
\<close>

fun play ::
  "'pid config \<Rightarrow> 'pid action list \<Rightarrow> 'pid system \<Rightarrow> (ptr list \<times> ptr list \<times> 'pid system) option" where
  "play cf [] s = Some ([], [], s)"
| "play cf (a # as) s = do {
     s1 \<leftarrow> exec cf a s;
     (ps, rs, s2) \<leftarrow> play cf as s1;
     Some (posted a s @ ps, retired cf a s @ rs, s2)
   }"

fun keeps_contract :: "'pid config \<Rightarrow> 'pid action list \<Rightarrow> 'pid system \<Rightarrow> bool" where
  "keeps_contract cf [] s \<longleftrightarrow> True"
| "keeps_contract cf (a # as) s \<longleftrightarrow>
     contract a s \<and> (case exec cf a s of None \<Rightarrow> True | Some s1 \<Rightarrow> keeps_contract cf as s1)"

text \<open>An endpoint that has just started: nothing allocated, queued, sent or waiting.\<close>

definition fresh_system :: "'pid system \<Rightarrow> bool" where
  "fresh_system s \<longleftrightarrow>
     0 < next_box (na s) \<and> op_box (na s) = Map.empty \<and> addr_box (na s) = Map.empty \<and> mh_box (na s) = Map.empty \<and>
     mem_handles (na s) = Map.empty \<and> queues (na s) = operation_queues_new \<and> cmd_tx (na s) = [] \<and>
     completion_rx (na s) = [] \<and> na_completions (na s) = [] \<and> tasks (sys_loop s) = []"

lemma fresh_system_inv:
  assumes "fresh_system s"
  shows "sys_inv s" and "busy s = []"
  using assms
  by (simp_all add: fresh_system_def sys_inv_def na_inv_def heap_ok_def posted_all_def owned_ok_def handles_ok_def
      na_parts busy_simps operation_queues_new_def)

lemma play_inv:
  "sys_inv s \<Longrightarrow> keeps_contract cf as s \<Longrightarrow>
   \<exists>ps rs s'. play cf as s = Some (ps, rs, s') \<and> sys_inv s' \<and>
     mset (busy s') + mset rs = mset (busy s) + mset ps"
proof (induction as arbitrary: s)
  case Nil
  then show ?case by simp
next
  case (Cons a as)
  from Cons.prems(2) have c: "contract a s" by simp
  from safe_step_inv [OF Cons.prems(1) c every_step_safe [OF Cons.prems(1) c], of cf]
  obtain s1 where s1: "exec cf a s = Some s1" "sys_inv s1"
    "mset (busy s1) + mset (retired cf a s) = mset (busy s) + mset (posted a s)" by blast
  with Cons.prems(2) have "keeps_contract cf as s1" by simp
  from Cons.IH [OF s1(2) this] obtain ps rs s' where rest: "play cf as s1 = Some (ps, rs, s')" "sys_inv s'"
    "mset (busy s') + mset rs = mset (busy s1) + mset ps" by blast
  have "mset (busy s') + mset (retired cf a s @ rs) = mset (busy s) + mset (posted a s @ ps)"
  proof -
    have "mset (busy s') + mset (retired cf a s @ rs) = (mset (busy s') + mset rs) + mset (retired cf a s)"
      by (simp add: ac_simps)
    also have "\<dots> = (mset (busy s1) + mset (retired cf a s)) + mset ps"
      unfolding rest(3) by (simp only: ac_simps)
    also have "\<dots> = mset (busy s) + mset (posted a s @ ps)"
      unfolding s1(3) by (simp only: mset_append ac_simps)
    finally show ?thesis .
  qed
  with s1(1) rest(1,2) show ?case by simp
qed



section \<open>A get whose request fails\<close>

text \<open>A pending get that is completed with an error is reported by the next poll and stays pending.\<close>

lemma failed_get_reported:
  assumes "na_inv w" and "distinct (busy_ops w ts)" and "set (busy_ops w ts) \<subseteq> dom (op_box w)"
    and "pending_rma_ops (queues w) = p # rest"
  obtains n w2 op where
    "na_libp2p_poll (send_completion \<lparr>ci_op_ptr = p, ci_result = NA_PROTOCOL_ERROR, ci_recv_info = None\<rparr> w)
       = Some (NA_SUCCESS, n, w2)"
    "p \<in> snd ` set (na_completions w2)" "op_box w2 p = Some op" "op_ret op = Some NA_PROTOCOL_ERROR"
    "pending_rma_ops (queues w2) = p # rest"
proof -
  let ?c = "\<lparr>ci_op_ptr = p, ci_result = NA_PROTOCOL_ERROR, ci_recv_info = None\<rparr>"
  let ?w1 = "send_completion ?c w" and ?cs = "completion_rx w @ [?c]"
  have rx: "completion_rx ?w1 = ?cs" by simp
  have "na_inv ?w1" using assms(1) by (rule na_inv_completion_sent) simp
  moreover have "p \<notin> ci_op_ptr ` set (completion_rx w)" "distinct (map ci_op_ptr (completion_rx w))"
    using assms(2,4) by (auto simp: busy_ops_def waiting_ops_def)
  then have dist: "distinct (map ci_op_ptr ?cs)" by simp
  moreover have live: "ci_op_ptr ` set ?cs \<subseteq> dom (op_box w)"
    using assms(3,4) by (auto simp: busy_ops_def waiting_ops_def)
  ultimately have ok: "completions_ok (completion_rx ?w1) ?w1"
    by (intro na_inv_completions_ok) (simp_all only: rx send_completion_simps)
  define w2 where "w2 = ?w1\<lparr>op_box := reported_box ?cs (op_box w),
       addr_box := addr_box w |` (- set (concat (map (freed_sources ?w1) ?cs))),
       completion_rx := [], event_fd := 0,
       na_completions := na_completions w @ reported_contexts ?cs (op_box w)\<rparr>"
  have "na_libp2p_poll ?w1 = Some (NA_SUCCESS, of_nat (length ?cs), w2)"
    using poll_eq [OF ok] by (simp only: rx send_completion_simps w2_def)
  moreover have "find (\<lambda>d. ci_op_ptr d = ci_op_ptr ?c) ?cs = Some ?c" using dist by (intro find_key) simp_all
  moreover obtain op where "op_box w p = Some op" using live by auto
  ultimately show ?thesis using assms(4)
    by (intro that [of _ w2 "reported ?c op"])
      (simp_all add: w2_def reported_box_def reported_def, force simp: reported_contexts_def)
qed

text \<open>C29: the one assumption on the runtime is needed: when the request of a get cannot be sent,
  the waiting task completes the operation with an error, but the operation stays among the
  pending gets. Mercury is told that it is done while it is still in flight, and once the
  client has destroyed it, the next get response of any peer reads the freed operation.\<close>

theorem failed_get_stays_pending:
  assumes "sys_inv s" and "i < length (tasks (sys_loop s))"
    and "tasks (sys_loop s) ! i = \<lparr>st_result = r, st_op = p, st_kind = GetTask\<rparr>"
    and "pending_rma_ops (queues (na s)) = p # rest"
  shows "\<exists>s1 s2 s3. exec cf (TaskEnds i (Inl e)) s = Some s1 \<and> exec cf PollCompletions s1 = Some s2 \<and>
    p \<in> snd ` set (na_completions (na s2)) \<and>
    map_option op_ret (op_box (na s2) p) = Some (Some NA_PROTOCOL_ERROR) \<and>
    p \<in> set (pending_rma_ops (queues (na s2))) \<and> \<not> distinct (busy s2) \<and>
    exec cf (OpDestroy p) s2 = Some s3 \<and>
    (\<forall>outcome h payload. msg_type h = RmaGetResp \<longrightarrow> exec cf (MessageArrives outcome h payload) s3 = None)"
proof -
  let ?w1 = "send_completion \<lparr>ci_op_ptr = p, ci_result = NA_PROTOCOL_ERROR, ci_recv_info = None\<rparr> (na s)"
  let ?s1 = "set_na ?w1 (s\<lparr>sys_loop := (sys_loop s)\<lparr>tasks := remove_at i (tasks (sys_loop s))\<rparr>\<rparr>)"
  have inv: "na_inv (na s)" "distinct (busy_ops (na s) (tasks (sys_loop s)))"
    "set (busy_ops (na s) (tasks (sys_loop s))) \<subseteq> dom (op_box (na s))"
    using assms(1) by (simp_all add: sys_inv_def busy_def)
  from failed_get_reported [OF inv assms(4)] obtain n w2 op where
    poll: "na_libp2p_poll ?w1 = Some (NA_SUCCESS, n, w2)" and told: "p \<in> snd ` set (na_completions w2)" and
    box: "op_box w2 p = Some op" "op_ret op = Some NA_PROTOCOL_ERROR" and pend: "pending_rma_ops (queues w2) = p # rest"
    by blast
  let ?s3 = "set_na (w2\<lparr>op_box := (op_box w2)(p := None)\<rparr>) (set_na w2 ?s1)"
  have twice: "\<not> distinct (busy_ops w2 ts)" for ts
    using pend told by (auto simp: busy_ops_def waiting_ops_def)
  have "p \<in> dom (op_box (na s))" using inv(3) assms(4) by (auto simp: busy_ops_def waiting_ops_def)
  then have "0 \<noteq> p" using heap_not_null(1) [OF na_invD(1) [OF inv(1)]] by (cases "p = 0") auto
  with box have s3: "exec cf (OpDestroy p) (set_na w2 ?s1) = Some ?s3"
    by (simp add: na_libp2p_op_destroy_def)
  have "exec cf (MessageArrives outcome h payload) ?s3 = None" if "msg_type h = RmaGetResp" for outcome h payload
    using that by (simp add: dispatch_def set_na_def handle_rma_get_response_def pend rma_op_match_def)
  moreover have "exec cf (TaskEnds i (Inl e)) s = Some ?s1" using assms(3) by (simp add: finish_task_def)
  moreover have "exec cf PollCompletions ?s1 = Some (set_na w2 ?s1)" by (simp add: poll)
  ultimately show ?thesis using s3
    by (intro exI [of _ ?s1] exI [of _ "set_na w2 ?s1"] exI [of _ ?s3])
      (simp only: set_na_simps busy_set_na box told twice pend option.map list.set_intros; blast)
qed

section \<open>Witnesses\<close>

definition example_config :: "u8 config" where
  "example_config = \<lparr>cf_lib = example_lib, cf_show = (\<lambda>p. []), cf_relay = None, cf_relay_peer = None\<rparr>"

definition example_system :: "u8 system" where
  "example_system =
     \<lparr>sys_in = \<lparr>in_na = example_state, in_pool = pool_new, in_result = 0\<rparr>, sys_loop = loop_init\<rparr>"

text \<open>A receive is posted, a message arrives, is polled and triggered.\<close>

definition example_history :: "u8 action list" where
  "example_history =
     [OpCreate, RecvUnexpected 7 0 0 0 0 1, MessageArrives (\<lambda>_. None) (rma_header\<lparr>msg_type := Unexpected\<rparr>) [1],
      PollCompletions, TriggerCompletion]"

lemma example_system_fresh: "fresh_system example_system"
  by (simp add: fresh_system_def example_system_def loop_init_def)

lemma example_history_respects: "keeps_contract example_config example_history example_system"
  by (simp add: example_history_def example_system_def set_na_def idle_def busy_simps buffer_ok_def
      na_libp2p_op_create_def na_libp2p_msg_recv_unexpected_def put_op_def Let_def operation_queues_new_def
      loop_init_def dispatch_def handle_incoming_msg_def alloc_boxed_def alloc_addr_def matched_recv_def
      ops_queue_def set_ops_queue_def copy_payload_def na_libp2p_poll_def drain_eventfd_def poll_one_def
      na_cb_completion_add_def)



definition getting_system :: "u8 system" where
  "getting_system =
     set_na (example_state\<lparr>op_box := [1 \<mapsto> example_op], next_box := 2,
               queues := operation_queues_new\<lparr>pending_rma_ops := [1]\<rparr>\<rparr>)
       (example_system\<lparr>sys_loop := loop_init\<lparr>tasks := [\<lparr>st_result = 0, st_op = 1, st_kind = GetTask\<rparr>]\<rparr>\<rparr>)"

lemma getting_system_inv: "sys_inv getting_system"
  by (simp add: getting_system_def sys_inv_def na_inv_def heap_ok_def posted_all_def owned_ok_def handles_ok_def
      na_parts busy_simps operation_queues_new_def task_ops_def example_system_def loop_init_def)

theorem failed_get_stays_pending_witness:
  "\<exists>s1 s2 s3. exec example_config (TaskEnds 0 (Inl ''no route'')) getting_system = Some s1 \<and>
    exec example_config PollCompletions s1 = Some s2 \<and>
    1 \<in> snd ` set (na_completions (na s2)) \<and>
    map_option op_ret (op_box (na s2) 1) = Some (Some NA_PROTOCOL_ERROR) \<and>
    1 \<in> set (pending_rma_ops (queues (na s2))) \<and> \<not> distinct (busy s2) \<and>
    exec example_config (OpDestroy 1) s2 = Some s3 \<and>
    (\<forall>outcome h payload. msg_type h = RmaGetResp \<longrightarrow>
       exec example_config (MessageArrives outcome h payload) s3 = None)"
  by (rule failed_get_stays_pending [OF getting_system_inv, of 0 0 1 "[]"])
     (simp_all add: getting_system_def example_system_def loop_init_def operation_queues_new_def)

end
