(* ===== verification/Ordering.thy ===== *)
theory Ordering
  imports System
begin

text \<open>
  The order of messages over whole histories of an endpoint. Both receive queues are
  instances of the interface \<open>matching_queue\<close>: a step of the endpoint acts on a queue as the
  matching discipline says, or leaves it alone. The theorems of the discipline then hold for
  every interleaving of calls, cancellations and incoming messages.
\<close>

section \<open>Events and deliveries of a step\<close>

fun unexpected_event :: "'pid action \<Rightarrow> (ptr, 'pid message) match_event option" where
  "unexpected_event (RecvUnexpected c cb arg buf n p) = Some (Post p)"
| "unexpected_event (CancelOp c p) = Some (Withdraw p)"
| "unexpected_event (MessageArrives outcome h payload) =
     (if msg_type h = Unexpected then Some (Arrive (source_peer_id h, tag h, payload)) else None)"
| "unexpected_event _ = None"

fun unexpected_delivery :: "'pid action \<Rightarrow> 'pid na_state \<Rightarrow> (ptr \<times> 'pid message) option" where
  "unexpected_delivery (RecvUnexpected c cb arg buf n p) w = taken_unexpected p w"
| "unexpected_delivery (MessageArrives outcome h payload) w =
     (if msg_type h = Unexpected then handed_unexpected (source_peer_id h, tag h, payload) w else None)"
| "unexpected_delivery _ w = None"

fun expected_event ::
  "'pid action \<Rightarrow> 'pid na_state \<Rightarrow> (ptr \<times> 'pid selector, 'pid message) match_event option" where
  "expected_event (RecvExpected c cb arg buf n src t p) w = Some (Post (p, t, source_peer src w))"
| "expected_event (CancelOp c p) w = Some (Withdraw (p, selector w p))"
| "expected_event (MessageArrives outcome h payload) w =
     (if msg_type h = Expected then Some (Arrive (source_peer_id h, tag h, payload)) else None)"
| "expected_event _ w = None"

fun expected_delivery ::
  "'pid action \<Rightarrow> 'pid na_state \<Rightarrow> ((ptr \<times> 'pid selector) \<times> 'pid message) option" where
  "expected_delivery (RecvExpected c cb arg buf n src t p) w = taken_expected p (t, source_peer src w) w"
| "expected_delivery (MessageArrives outcome h payload) w =
     (if msg_type h = Expected then handed_expected (source_peer_id h, tag h, payload) w else None)"
| "expected_delivery _ w = None"

definition unexpected_stp where
  "unexpected_stp cf s e d s' \<longleftrightarrow>
     (\<exists>a. contract a s \<and> exec cf a s = Some s' \<and> e = unexpected_event a \<and> d = unexpected_delivery a (na s))"

definition expected_stp where
  "expected_stp cf s e d s' \<longleftrightarrow>
     (\<exists>a. contract a s \<and> exec cf a s = Some s' \<and> e = expected_event a (na s) \<and> d = expected_delivery a (na s))"

section \<open>Steps that leave the queues alone\<close>

definition same_queues :: "'pid na_state \<Rightarrow> 'pid na_state \<Rightarrow> bool" where
  "same_queues w w' \<longleftrightarrow>
     unexpected_recv_ops (queues w') = unexpected_recv_ops (queues w) \<and>
     expected_recv_ops (queues w') = expected_recv_ops (queues w) \<and>
     unexpected_msg_stash (queues w') = unexpected_msg_stash (queues w) \<and>
     expected_msg_stash (queues w') = expected_msg_stash (queues w) \<and>
     (\<forall>a\<in>set (stash_addrs w) \<union> (filter_addrs w - {0}). addr_box w' a = addr_box w a) \<and>
     (\<forall>p\<in>set (expected_recv_ops (queues w)).
        op_tag (the (op_box w' p)) = op_tag (the (op_box w p)) \<and>
        op_addr (the (op_box w' p)) = op_addr (the (op_box w p)))"

lemma same_queues_abs:
  assumes "same_queues w w'"
  shows "unexpected_queue w' = unexpected_queue w" and "expected_queue w' = expected_queue w"
proof -
  have msg: "message_of w' m = message_of w m"
    if "m \<in> set (unexpected_msg_stash (queues w)) \<union> set (expected_msg_stash (queues w))" for m
  proof -
    from that have "sm_source_addr m \<in> set (stash_addrs w)" by (auto simp: stash_addrs_def)
    with assms show ?thesis by (simp add: same_queues_def message_of_def)
  qed
  have "selector w' p = selector w p" if "p \<in> set (expected_recv_ops (queues w))" for p
  proof -
    from that have "op_addr (the (op_box w p)) \<in> filter_addrs w" by (simp add: filter_addrs_def recv_ops_def)
    with assms that show ?thesis by (auto simp: same_queues_def selector_def op_selector_def)
  qed
  with msg assms show "unexpected_queue w' = unexpected_queue w" "expected_queue w' = expected_queue w"
    by (simp_all add: same_queues_def unexpected_queue_def expected_queue_def)
qed

text \<open>Growing heaps and changes elsewhere.\<close>

lemma same_queuesI:
  assumes "queues w' = queues w" and "addr_box w' = addr_box w" and "op_box w' = op_box w"
  shows "same_queues w w'"
  using assms by (simp add: same_queues_def)

definition grown :: "'pid na_state \<Rightarrow> 'pid na_state \<Rightarrow> bool" where
  "grown w w' \<longleftrightarrow> queues w' = queues w \<and> op_box w' = op_box w \<and> next_box w \<le> next_box w' \<and>
     (\<forall>a<next_box w. addr_box w' a = addr_box w a)"

lemma used_addrs:
  assumes "na_inv w" and "a \<in> set (stash_addrs w) \<union> (filter_addrs w - {0})"
  shows "a < next_box w"
proof -
  note inv = na_invD [OF assms(1)]
  have "a \<in> dom (addr_box w)"
  proof (cases "a \<in> set (stash_addrs w)")
    case True
    with inv(3) show ?thesis by (auto simp: owned_ok_def owned_addrs_def)
  next
    case False
    with assms(2) obtain p where "p \<in> recv_ops w" "a = op_addr (the (op_box w p))" "a \<noteq> 0"
      by (auto simp: filter_addrs_def)
    with inv(2) show ?thesis
      by (fastforce simp: posted_all_def recv_ops_def posted_ok_def split: option.splits)
  qed
  with inv(1) show ?thesis by (auto simp: heap_ok_def)
qed

lemma grown_same_queues: "na_inv w \<Longrightarrow> grown w w' \<Longrightarrow> same_queues w w'"
  using used_addrs [of w] unfolding grown_def same_queues_def by simp

lemma grown_refl [simp]: "grown w w"
  by (simp add: grown_def)

lemma grown_trans: "grown w1 w2 \<Longrightarrow> grown w2 w3 \<Longrightarrow> grown w1 w3"
  by (simp add: grown_def)

lemma grown_alloc: "grown w (snd (alloc_addr a w))"
  by (simp add: grown_def alloc_addr_def)

lemma grown_send_cmd: "grown w (send_cmd c w)"
  by (simp add: grown_def send_cmd_def)

lemma grown_next_chan: "grown w (w\<lparr>next_chan := k\<rparr>)"
  by (simp add: grown_def)

lemma grown_lookup: "grown w (snd (snd (na_libp2p_addr_lookup L reply name w)))"
proof -
  have relay: "grown w (send_cmd (ConnectViaRelay pid ma k) (w\<lparr>next_chan := j\<rparr>))" for pid ma k j
    by (rule grown_trans [OF grown_next_chan grown_send_cmd])
  note alloc = grown_alloc grown_trans [OF relay grown_alloc] grown_trans [OF grown_send_cmd grown_alloc]
  show ?thesis
    by (simp add: na_libp2p_addr_lookup_def alloc_boxed_def split_def Let_def relay grown_send_cmd alloc
        split: option.split relay_connect_result.split)
qed

text \<open>Changing an operation that is not in flight.\<close>

lemma same_queues_op:
  assumes "p \<notin> recv_ops w" and "queues w' = queues w\<lparr>pending_rma_ops := ps\<rparr>" and "addr_box w' = addr_box w"
    and "\<And>x. x \<noteq> p \<Longrightarrow> op_box w' x = op_box w x"
  shows "same_queues w w'"
proof -
  have "x \<noteq> p" if "x \<in> set (expected_recv_ops (queues w))" for x
    using assms(1) that by (auto simp: recv_ops_def)
  with assms(2-4) show ?thesis by (simp add: same_queues_def)
qed

lemma poll_same_queues:
  assumes "sys_inv s" and "na_libp2p_poll (na s) = Some (r, k, w')"
  shows "same_queues (na s) w'"
proof -
  let ?w = "na s" and ?cs = "completion_rx (na s)"
  have inv: "na_inv ?w" and live: "set (busy s) \<subseteq> dom (op_box ?w)" and dist: "distinct (busy s)"
    using assms(1) by (simp_all add: sys_inv_def)
  have ops: "distinct (map ci_op_ptr ?cs)" "ci_op_ptr ` set ?cs \<subseteq> dom (op_box ?w)"
    "recv_ops ?w \<inter> ci_op_ptr ` set ?cs = {}"
    using dist live by (auto simp: busy_simps recv_ops_def)
  note run = poll_eq [OF na_inv_completions_ok [OF inv ops(1,2)], unfolded assms(2) option.inject prod.inject]
  have op: "op_box w' p = op_box ?w p" if "p \<in> set (expected_recv_ops (queues ?w))" for p
  proof -
    from that ops(3) have "\<forall>c\<in>set ?cs. ci_op_ptr c \<noteq> p" by (auto simp: recv_ops_def)
    then have "find (\<lambda>c. ci_op_ptr c = p) ?cs = None" by (auto simp: find_None_iff)
    with run show ?thesis by (simp add: reported_box_def)
  qed
  have "addr_box w' a = addr_box ?w a" if "a \<in> set (stash_addrs ?w) \<union> (filter_addrs ?w - {0})" for a
  proof -
    have "a \<notin> set (channel_sources ?w)"
      using that na_invD(3) [OF inv] by (auto simp: owned_ok_def owned_addrs_def)
    with freed_sources_channel [of ?w] have "a \<notin> set (concat (map (freed_sources ?w) ?cs))" by blast
    with run show ?thesis by simp
  qed
  with op run show ?thesis by (simp add: same_queues_def)
qed

text \<open>The steps that are neither a receive, a cancellation nor a two-sided message.\<close>

fun touches_queues :: "'pid action \<Rightarrow> bool" where
  "touches_queues (RecvUnexpected c cb arg buf n p) = True"
| "touches_queues (RecvExpected c cb arg buf n src t p) = True"
| "touches_queues (CancelOp c p) = True"
| "touches_queues (MessageArrives outcome h payload) = (msg_type h = Unexpected \<or> msg_type h = Expected)"
| "touches_queues _ = False"

lemma finish_task_same_queues: "same_queues w (finish_task t outcome w)"
  by (rule same_queuesI) (simp_all add: finish_task_def Let_def)

lemma close_commands_same [simp]:
  "queues (na (close_commands s)) = queues (na s)" "addr_box (na (close_commands s)) = addr_box (na s)"
  by (simp_all add: close_commands_def)

lemma rma_messages_same_queues:
  assumes "sys_inv s" and "\<not> touches_queues (MessageArrives outcome h payload)"
    and "dispatch outcome (h, payload) (sys_in s) = Some (r, st)"
  shows "same_queues (na s) (in_na st)"
proof -
  have inv: "na_inv (na s)" and pending: "set (pending_rma_ops (queues (na s))) \<subseteq> dom (op_box (na s))"
    using assms(1) by (auto simp: sys_inv_def busy_simps)
  show ?thesis
  proof (cases "msg_type h")
    case RmaPut
    obtain m where "handle_rma_put h payload (na s) = Some ((na s)\<lparr>memory := m\<rparr>)"
      using rma_put_safe [OF inv] .
    with RmaPut assms(3) have "in_na st = (na s)\<lparr>memory := m\<rparr>" by (auto simp: dispatch_def)
    then show ?thesis by (intro same_queuesI) simp_all
  next
    case RmaGetReq
    with assms(3) get_request_safe [OF na_invD(4) [OF inv], of outcome h] have "in_na st = na s"
      by (auto simp: dispatch_def)
    then show ?thesis by (intro same_queuesI) simp_all
  next
    case RmaGetResp
    with assms(3) have "handle_rma_get_response h payload (na s) = Some (in_na st)"
      by (auto simp: dispatch_def split: Option.bind_splits)
    with get_response_eq [OF na_invD(4) [OF inv] pending, of h payload] show ?thesis
      by (auto simp: same_queues_def split: option.splits)
  qed (use assms(2) in simp_all)
qed

lemma silent_same_queues:
  assumes "sys_inv s" and "contract a s" and "exec cf a s = Some s'" and "\<not> touches_queues a"
  shows "same_queues (na s) (na s')"
proof -
  have inv: "na_inv (na s)" using assms(1) by (simp add: sys_inv_def)
  note grown = grown_same_queues [OF inv]
  have alloc: "same_queues (na s) (snd (alloc_addr b (na s)))" for b by (rule grown [OF grown_alloc])
  have null: "op_box (na s) 0 = None" using heap_not_null(1) [OF na_invD(1) [OF inv]] .
  show ?thesis
  proof (cases a)
    case OpCreate
    have "next_box (na s) \<notin> recv_ops (na s)"
      using recv_ops_live [OF inv] heap_fresh(1) [OF na_invD(1) [OF inv]] by blast
    with OpCreate assms(3) show ?thesis
      by (intro same_queues_op [where p = "next_box (na s)" and ps = "pending_rma_ops (queues (na s))"])
         (auto simp: na_libp2p_op_create_def Let_def)
  next
    case (OpDestroy p)
    have "p \<notin> recv_ops (na s)"
      using OpDestroy assms(2) idleD(2) recv_ops_live [OF inv, of p] null by auto
    with OpDestroy assms(3) show ?thesis
      by (intro same_queues_op [where p = p and ps = "pending_rma_ops (queues (na s))"])
         (auto simp: na_libp2p_op_destroy_def split: if_splits option.splits)
  next
    case AddrLookup
    with assms(3) grown [OF grown_lookup] show ?thesis by auto
  next
    case AddrSelf
    with assms(3) alloc show ?thesis by (auto simp: na_libp2p_addr_self_def addr_dup_boxed_def split_def Let_def)
  next
    case AddrDup
    with assms(3) alloc grown [OF grown_refl] show ?thesis
      by (auto simp: na_libp2p_addr_dup_def addr_dup_boxed_def split_def Let_def split: if_splits Option.bind_splits)
  next
    case AddrDeserialize
    with assms(3) alloc grown [OF grown_refl] show ?thesis
      by (auto simp: na_libp2p_addr_deserialize_def alloc_boxed_def split_def Let_def
          split: if_splits Option.bind_splits option.splits)
  next
    case (AddrFree p)
    have "addr_box (na s') b = addr_box (na s) b" if "b \<in> set (stash_addrs (na s)) \<union> (filter_addrs (na s) - {0})" for b
      using that AddrFree assms(2,3)
      by (auto simp: na_libp2p_addr_free_def free_addr_def owned_addrs_def split: if_splits option.splits)
    moreover have "queues (na s') = queues (na s)" "op_box (na s') = op_box (na s)"
      using AddrFree assms(3) by (auto simp: na_libp2p_addr_free_def free_addr_def split: if_splits option.splits)
    ultimately show ?thesis by (simp add: same_queues_def)
  next
    case HandleCreate
    with assms(3) show ?thesis
      by (intro same_queuesI)
         (auto simp: na_libp2p_mem_handle_create_def next_handle_id_def alloc_mem_handle_def Let_def)
  next
    case HandleDeserialize
    with assms(3) show ?thesis
      by (intro same_queuesI)
         (auto simp: na_libp2p_mem_handle_deserialize_def alloc_mem_handle_def Let_def
           split: if_splits Option.bind_splits option.splits)
  next
    case HandleFree
    with assms(3) show ?thesis
      by (intro same_queuesI)
         (auto simp: na_libp2p_mem_handle_free_def Let_def split: if_splits Option.bind_splits)
  next
    case (SendUnexpected c cb arg buf n dest t p)
    with assms(2,3) idleD(2) [of p s] show ?thesis
      by (intro same_queues_op [where p = p and ps = "pending_rma_ops (queues (na s))"])
         (auto simp: na_libp2p_msg_send_unexpected_def put_op_def send_cmd_def Let_def split: Option.bind_splits)
  next
    case (SendExpected c cb arg buf n dest t p)
    with assms(2,3) idleD(2) [of p s] show ?thesis
      by (intro same_queues_op [where p = p and ps = "pending_rma_ops (queues (na s))"])
         (auto simp: na_libp2p_msg_send_expected_def put_op_def send_cmd_def Let_def split: Option.bind_splits)
  next
    case (PutData c cb arg lh lo rh ro n dest p)
    with assms(2,3) idleD(2) [of p s] show ?thesis
      by (intro same_queues_op [where p = p and ps = "pending_rma_ops (queues (na s))"])
         (auto simp: na_libp2p_put_def put_op_def send_cmd_def Let_def split: Option.bind_splits)
  next
    case (GetData c cb arg lh lo rh ro n dest p)
    with assms(2,3) idleD(2) [of p s] show ?thesis
      by (intro same_queues_op [where p = p and ps = "pending_rma_ops (queues (na s)) @ [p]"])
         (auto simp: na_libp2p_get_def put_op_def send_cmd_def Let_def split: Option.bind_splits)
  next
    case PollCompletions
    with assms(1,3) poll_same_queues show ?thesis by auto
  next
    case TriggerCompletion
    with assms(3) show ?thesis by (intro same_queuesI) auto
  next
    case ChangeMemory
    with assms(3) show ?thesis by (intro same_queuesI) auto
  next
    case RunCommand
    with assms(3) show ?thesis by (intro same_queuesI) auto
  next
    case TurnLoop
    with assms(3) show ?thesis by (intro same_queuesI) auto
  next
    case TaskEnds
    with assms(3) finish_task_same_queues show ?thesis by auto
  next
    case MessageArrives
    with assms(1,3,4) rma_messages_same_queues show ?thesis by fastforce
  qed (use assms(4) in simp_all)
qed

section \<open>Both queues follow the discipline\<close>

lemma sys_step_inv:
  assumes "sys_inv s" and "contract a s" and "exec cf a s = Some s'"
  shows "sys_inv s'"
  using safe_step_inv [OF assms(1,2) every_step_safe [OF assms(1,2), of cf]] assms(3) by auto

lemma match_withdraw: "match_step M (Withdraw p) st = (None, snd (match_step M (Withdraw p) st))"
  by (cases st) simp

text \<open>The queue operations of a step, with both queues they act on.\<close>

lemma recv_unexpected_step:
  assumes "sys_inv s" and "contract (RecvUnexpected c cb arg buf n p) s"
    and "exec cf (RecvUnexpected c cb arg buf n p) s = Some s'"
  shows "match_step unexpected_matches (Post p) (unexpected_queue (na s))
       = (taken_unexpected p (na s), unexpected_queue (na s'))"
    and "expected_queue (na s') = expected_queue (na s)"
proof -
  from assms(2) obtain op where op: "op_box (na s) p = Some op" "buffer_ok buf n (na s)" and idle: "idle p s"
    by (auto simp: idle_def)
  have notin: "p \<notin> set (expected_recv_ops (queues (na s)))" using idleD(2) [OF idle] by (simp add: recv_ops_def)
  from assms(3) obtain r where run: "na_libp2p_msg_recv_unexpected c cb arg buf n p (na s) = Some (r, na s')" by auto
  from recv_unexpected_queues [OF op notin run]
  show "match_step unexpected_matches (Post p) (unexpected_queue (na s)) = (taken_unexpected p (na s), unexpected_queue (na s'))"
    and "expected_queue (na s') = expected_queue (na s)" .
qed

lemma recv_expected_step:
  assumes "sys_inv s" and "contract (RecvExpected c cb arg buf n src t p) s"
    and "exec cf (RecvExpected c cb arg buf n src t p) s = Some s'"
  shows "match_step expected_matches (Post (p, t, source_peer src (na s))) (expected_queue (na s))
       = (taken_expected p (t, source_peer src (na s)) (na s), expected_queue (na s'))"
    and "unexpected_queue (na s') = unexpected_queue (na s)"
proof -
  from assms(2) obtain op where op: "op_box (na s) p = Some op" "buffer_ok buf n (na s)"
    "src = null_ptr \<or> addr_box (na s) src \<noteq> None" and idle: "idle p s"
    by (auto simp: idle_def dest_ok_def)
  have notin: "p \<notin> set (expected_recv_ops (queues (na s)))" using idleD(2) [OF idle] by (simp add: recv_ops_def)
  have ok: "queues_ok (na s)" using assms(1) by (simp add: sys_inv_def na_inv_queues_ok)
  from assms(3) obtain r where run: "na_libp2p_msg_recv_expected c cb arg buf n src t p (na s) = Some (r, na s')" by auto
  from recv_expected_queues [OF ok op notin run]
  show "match_step expected_matches (Post (p, t, source_peer src (na s))) (expected_queue (na s))
       = (taken_expected p (t, source_peer src (na s)) (na s), expected_queue (na s'))"
    and "unexpected_queue (na s') = unexpected_queue (na s)" .
qed

lemma cancel_step:
  assumes "sys_inv s" and "exec cf (CancelOp c p) s = Some s'"
  shows "match_step unexpected_matches (Withdraw p) (unexpected_queue (na s)) = (None, unexpected_queue (na s'))"
    and "match_step expected_matches (Withdraw (p, selector (na s) p)) (expected_queue (na s)) = (None, expected_queue (na s'))"
proof -
  have dist: "distinct (waiting_ops (na s))" using assms(1) by (auto simp: sys_inv_def busy_def busy_ops_def)
  have live: "op_box (na s) p \<noteq> None" if "p \<in> set (waiting_ops (na s))"
    using assms(1) that by (auto simp: sys_inv_def busy_def busy_ops_def)
  from assms(2) obtain r where run: "na_libp2p_cancel c p (na s) = Some (r, na s')" by auto
  show "match_step unexpected_matches (Withdraw p) (unexpected_queue (na s)) = (None, unexpected_queue (na s'))"
    and "match_step expected_matches (Withdraw (p, selector (na s) p)) (expected_queue (na s)) = (None, expected_queue (na s'))"
    using match_withdraw [of unexpected_matches p "unexpected_queue (na s)"]
      match_withdraw [of expected_matches "(p, selector (na s) p)" "expected_queue (na s)"]
    by (simp_all only: cancel_queues(1,2) [OF dist live run])
qed

lemma arrival_step:
  assumes "sys_inv s" and "exec cf (MessageArrives outcome h payload) s = Some s'"
    and "m = (source_peer_id h, tag h, payload)"
  shows "msg_type h = Unexpected \<Longrightarrow>
      match_step unexpected_matches (Arrive m) (unexpected_queue (na s)) = (handed_unexpected m (na s), unexpected_queue (na s'))
      \<and> expected_queue (na s') = expected_queue (na s)"
    and "msg_type h = Expected \<Longrightarrow>
      match_step expected_matches (Arrive m) (expected_queue (na s)) = (handed_expected m (na s), expected_queue (na s'))
      \<and> unexpected_queue (na s') = unexpected_queue (na s)"
proof -
  have inv: "na_inv (na s)" using assms(1) by (simp add: sys_inv_def)
  note pre = na_inv_queues_ok [OF inv] heap_fresh(2) [OF na_invD(1) [OF inv]]
  show "match_step unexpected_matches (Arrive m) (unexpected_queue (na s)) = (handed_unexpected m (na s), unexpected_queue (na s'))
      \<and> expected_queue (na s') = expected_queue (na s)" if "msg_type h = Unexpected"
  proof -
    from assms(2) that have "handle_incoming_msg h payload False (na s) = Some (na s')"
      by (auto simp: dispatch_def split: Option.bind_splits)
    from incoming_unexpected_queues [OF pre this] assms(3) show ?thesis by simp
  qed
  show "match_step expected_matches (Arrive m) (expected_queue (na s)) = (handed_expected m (na s), expected_queue (na s'))
      \<and> unexpected_queue (na s') = unexpected_queue (na s)" if "msg_type h = Expected"
  proof -
    from assms(2) that have "handle_incoming_msg h payload True (na s) = Some (na s')"
      by (auto simp: dispatch_def split: Option.bind_splits)
    from incoming_expected_queues [OF pre this] assms(3) show ?thesis by simp
  qed
qed

lemma unexpected_step:
  assumes "sys_inv s" and "contract a s" and "exec cf a s = Some s'"
  shows "case unexpected_event a of
      Some e \<Rightarrow> match_step unexpected_matches e (unexpected_queue (na s))
                = (unexpected_delivery a (na s), unexpected_queue (na s'))
    | None \<Rightarrow> unexpected_delivery a (na s) = None \<and> unexpected_queue (na s') = unexpected_queue (na s)"
proof (cases "touches_queues a")
  case False
  with silent_same_queues [OF assms False] same_queues_abs(1) show ?thesis
    by (cases a) auto
next
  case True
  then show ?thesis
  proof (cases a)
    case RecvUnexpected
    with recv_unexpected_step(1) assms show ?thesis by fastforce
  next
    case RecvExpected
    with recv_expected_step(2) assms show ?thesis by fastforce
  next
    case CancelOp
    with cancel_step(1) assms show ?thesis by fastforce
  next
    case (MessageArrives outcome h payload)
    with True arrival_step [OF assms(1) assms(3) [unfolded MessageArrives] refl] show ?thesis by auto
  qed simp_all
qed

lemma expected_step:
  assumes "sys_inv s" and "contract a s" and "exec cf a s = Some s'"
  shows "case expected_event a (na s) of
      Some e \<Rightarrow> match_step expected_matches e (expected_queue (na s))
                = (expected_delivery a (na s), expected_queue (na s'))
    | None \<Rightarrow> expected_delivery a (na s) = None \<and> expected_queue (na s') = expected_queue (na s)"
proof (cases "touches_queues a")
  case False
  with silent_same_queues [OF assms False] same_queues_abs(2) show ?thesis
    by (cases a) auto
next
  case True
  then show ?thesis
  proof (cases a)
    case RecvUnexpected
    with recv_unexpected_step(2) assms show ?thesis by fastforce
  next
    case RecvExpected
    with recv_expected_step(1) assms show ?thesis by fastforce
  next
    case CancelOp
    with cancel_step(2) assms show ?thesis by fastforce
  next
    case (MessageArrives outcome h payload)
    with True arrival_step [OF assms(1) assms(3) [unfolded MessageArrives] refl] show ?thesis by auto
  qed simp_all
qed

interpretation uq: matching_queue "\<lambda>s. unexpected_queue (na s)" unexpected_matches "unexpected_stp cf" sys_inv
  for cf
proof unfold_locales
  fix s e d s'
  assume inv: "sys_inv s" and "unexpected_stp cf s (Some e) d s'"
  then obtain a where a: "contract a s" "exec cf a s = Some s'" "unexpected_event a = Some e" "d = unexpected_delivery a (na s)"
    by (auto simp: unexpected_stp_def)
  from unexpected_step [OF inv a(1,2)] a(3,4)
  show "match_step unexpected_matches e (unexpected_queue (na s)) = (d, unexpected_queue (na s'))" by simp
next
  fix s d s'
  assume inv: "sys_inv s" and "unexpected_stp cf s None d s'"
  then obtain a where a: "contract a s" "exec cf a s = Some s'" "unexpected_event a = None" "d = unexpected_delivery a (na s)"
    by (auto simp: unexpected_stp_def)
  from unexpected_step [OF inv a(1,2)] a(3,4)
  show "d = None \<and> unexpected_queue (na s') = unexpected_queue (na s)" by simp
next
  fix s oe d s'
  assume "sys_inv s" "unexpected_stp cf s oe d s'"
  then show "sys_inv s'" by (auto simp: unexpected_stp_def intro: sys_step_inv)
qed

interpretation xq: matching_queue "\<lambda>s. expected_queue (na s)" expected_matches "expected_stp cf" sys_inv
  for cf
proof unfold_locales
  fix s e d s'
  assume inv: "sys_inv s" and "expected_stp cf s (Some e) d s'"
  then obtain a where a: "contract a s" "exec cf a s = Some s'" "expected_event a (na s) = Some e" "d = expected_delivery a (na s)"
    by (auto simp: expected_stp_def)
  from expected_step [OF inv a(1,2)] a(3,4)
  show "match_step expected_matches e (expected_queue (na s)) = (d, expected_queue (na s'))" by simp
next
  fix s d s'
  assume inv: "sys_inv s" and "expected_stp cf s None d s'"
  then obtain a where a: "contract a s" "exec cf a s = Some s'" "expected_event a (na s) = None" "d = expected_delivery a (na s)"
    by (auto simp: expected_stp_def)
  from expected_step [OF inv a(1,2)] a(3,4)
  show "d = None \<and> expected_queue (na s') = expected_queue (na s)" by simp
next
  fix s oe d s'
  assume "sys_inv s" "expected_stp cf s oe d s'"
  then show "sys_inv s'" by (auto simp: expected_stp_def intro: sys_step_inv)
qed

section \<open>Histories\<close>

text \<open>The events and deliveries of a history.\<close>

fun log_of where
  "log_of ev del cf [] s = ([], [])"
| "log_of ev del cf (a # as) s =
     (case exec cf a s of
        None \<Rightarrow> ([], [])
      | Some s1 \<Rightarrow>
          (let (es, ds) = log_of ev del cf as s1
           in (opt_cons (ev a (na s)) es, opt_cons (del a (na s)) ds)))"

definition unexpected_log where
  "unexpected_log = log_of (\<lambda>a w. unexpected_event a) unexpected_delivery"

definition expected_log where
  "expected_log = log_of expected_event expected_delivery"

lemma log_of_run:
  assumes "\<And>a s s'. contract a s \<Longrightarrow> exec cf a s = Some s' \<Longrightarrow> stp s (ev a (na s)) (del a (na s)) s'"
  shows "keeps_contract cf as s \<Longrightarrow> play cf as s = Some (ps, rs, s') \<Longrightarrow> log_of ev del cf as s = (es, ds) \<Longrightarrow>
    run_of stp s es ds s'"
proof (induction as arbitrary: s ps rs es ds)
  case Nil
  then show ?case by (auto intro: run_done)
next
  case (Cons a as)
  from Cons.prems(2) obtain s1 ps1 rs1 where s1: "exec cf a s = Some s1" "play cf as s1 = Some (ps1, rs1, s')"
    by (auto split: Option.bind_splits)
  obtain es1 ds1 where log: "log_of ev del cf as s1 = (es1, ds1)" by force
  with s1(1) Cons.prems(3) have "es = opt_cons (ev a (na s)) es1" "ds = opt_cons (del a (na s)) ds1" by auto
  moreover have "run_of stp s1 es1 ds1 s'" using Cons.IH [OF _ s1(2) log] Cons.prems(1) s1(1) by simp
  ultimately show ?case using assms [OF _ s1(1)] Cons.prems(1) by (auto intro: run_more)
qed

lemma unexpected_log_run:
  assumes "keeps_contract cf as s" and "play cf as s = Some (ps, rs, s')" and "unexpected_log cf as s = (es, ds)"
  shows "run_of (unexpected_stp cf) s es ds s'"
  using assms(3) unfolding unexpected_log_def
  by (intro log_of_run [OF _ assms(1,2)]) (auto simp: unexpected_stp_def)

lemma expected_log_run:
  assumes "keeps_contract cf as s" and "play cf as s = Some (ps, rs, s')" and "expected_log cf as s = (es, ds)"
  shows "run_of (expected_stp cf) s es ds s'"
  using assms(3) unfolding expected_log_def
  by (intro log_of_run [OF _ assms(1,2)]) (auto simp: expected_stp_def)

lemma fresh_queues:
  assumes "fresh_system s"
  shows "unexpected_queue (na s) = ([], [])" and "expected_queue (na s) = ([], [])"
  using assms by (simp_all add: fresh_system_def operation_queues_new_def unexpected_queue_def expected_queue_def)

text \<open>C3: unexpected messages are delivered first come, first served over any history that keeps
  the contract: the messages delivered, in order, followed by the stash are exactly the
  messages that arrived, and, unless receives are cancelled, the receives served, in order,
  followed by those still posted are exactly the receives posted. No receive waits while a
  message is stashed.\<close>

theorem unexpected_messages_fifo:
  assumes "fresh_system s" and "keeps_contract cf as s"
  shows "\<exists>ps rs s'. play cf as s = Some (ps, rs, s') \<and>
    (case (unexpected_log cf as s, unexpected_queue (na s')) of
       ((es, ds), (recvs, stash)) \<Rightarrow>
         arrivals es = map snd ds @ stash \<and>
         ((\<forall>p. Withdraw p \<notin> set es) \<longrightarrow> posts es = map fst ds @ recvs) \<and>
         (recvs = [] \<or> stash = []))"
proof -
  note inv = fresh_system_inv(1) [OF assms(1)] and fresh = fresh_queues(1) [OF assms(1)]
  from play_inv [OF inv assms(2)] obtain ps rs s' where play: "play cf as s = Some (ps, rs, s')" by blast
  obtain es ds where log: "unexpected_log cf as s = (es, ds)" by force
  obtain qs ms where q: "unexpected_queue (na s') = (qs, ms)" by force
  note run = unexpected_log_run [OF assms(2) play log]
  have sep: "separated unexpected_matches (unexpected_queue (na s))" by (simp add: fresh)
  have alike: "alike (\<lambda>_. True) (\<lambda>m p. unexpected_matches p m)" "alike (\<lambda>_. True) unexpected_matches"
    by (simp_all add: alike_def unexpected_matches_def)
  have "arrivals es = map snd ds @ ms"
    using uq.run_messages_in_order [OF run inv sep alike(1)] by (simp add: fresh q)
  moreover have "posts es = map fst ds @ qs" if "\<forall>p. Withdraw p \<notin> set es"
    using uq.run_receives_in_order [OF run inv sep alike(2)] that by (simp add: fresh q)
  moreover have "\<forall>p\<in>set qs. \<forall>m\<in>set ms. False"
    using uq.run_separated [OF run inv sep] by (simp add: q unexpected_matches_def)
  then have "qs = [] \<or> ms = []" by (cases qs; cases ms) auto
  ultimately show ?thesis using play log q by simp
qed

text \<open>C6: expected messages of one sender with one tag are delivered in the order in which they
  arrived, none lost and none twice, over any history that keeps the contract; each goes to a
  receive that asked for its tag and, if it named a source, for its sender; and no receive
  waits beside a stashed message it could take.\<close>

theorem expected_messages_fifo:
  assumes "fresh_system s" and "keeps_contract cf as s" and "K = (\<lambda>(q, t, _). q = peer \<and> t = tg)"
  shows "\<exists>ps rs s'. play cf as s = Some (ps, rs, s') \<and>
    (case (expected_log cf as s, expected_queue (na s')) of
       ((es, ds), (recvs, stash)) \<Rightarrow>
         filter K (arrivals es) = filter K (map snd ds) @ filter K stash \<and>
         (\<forall>(r, m)\<in>set ds. expected_matches r m) \<and>
         (\<forall>r\<in>set recvs. \<forall>m\<in>set stash. \<not> expected_matches r m))"
proof -
  note inv = fresh_system_inv(1) [OF assms(1)] and fresh = fresh_queues(2) [OF assms(1)]
  from play_inv [OF inv assms(2)] obtain ps rs s' where play: "play cf as s = Some (ps, rs, s')" by blast
  obtain es ds where log: "expected_log cf as s = (es, ds)" by force
  obtain qs ms where q: "expected_queue (na s') = (qs, ms)" by force
  note run = expected_log_run [OF assms(2) play log]
  have sep: "separated expected_matches (expected_queue (na s))" by (simp add: fresh)
  have "alike K (\<lambda>m r. expected_matches r m)" by (auto simp: alike_def assms(3))
  from xq.run_messages_in_order [OF run inv sep this]
  have "filter K (arrivals es) = filter K (map snd ds) @ filter K ms" by (simp add: fresh q)
  moreover have "\<forall>(r, m)\<in>set ds. expected_matches r m" using xq.run_deliveries_match [OF run inv] by blast
  moreover have "\<forall>r\<in>set qs. \<forall>m\<in>set ms. \<not> expected_matches r m"
    using xq.run_separated [OF run inv sep] by (simp add: q)
  ultimately show ?thesis using play log q by simp
qed

section \<open>Witnesses\<close>

theorem unexpected_messages_fifo_witness:
  "\<exists>ps rs s'. play example_config example_history example_system = Some (ps, rs, s') \<and>
    (case (unexpected_log example_config example_history example_system, unexpected_queue (na s')) of
       ((es, ds), (recvs, stash)) \<Rightarrow>
         arrivals es = map snd ds @ stash \<and>
         ((\<forall>p. Withdraw p \<notin> set es) \<longrightarrow> posts es = map fst ds @ recvs) \<and>
         (recvs = [] \<or> stash = []))"
  by (rule unexpected_messages_fifo [OF example_system_fresh example_history_respects])

theorem expected_messages_fifo_witness:
  "\<exists>ps rs s'. play example_config example_history example_system = Some (ps, rs, s') \<and>
    (case (expected_log example_config example_history example_system, expected_queue (na s')) of
       ((es, ds), (recvs, stash)) \<Rightarrow>
         filter (\<lambda>(q, t, _). q = 42 \<and> t = 3) (arrivals es)
           = filter (\<lambda>(q, t, _). q = 42 \<and> t = 3) (map snd ds) @ filter (\<lambda>(q, t, _). q = 42 \<and> t = 3) stash \<and>
         (\<forall>(r, m)\<in>set ds. expected_matches r m) \<and>
         (\<forall>r\<in>set recvs. \<forall>m\<in>set stash. \<not> expected_matches r m))"
  by (rule expected_messages_fifo [OF example_system_fresh example_history_respects refl])

end
