(* ===== verification/Completion.thy ===== *)
theory Completion
  imports Messaging
begin

text \<open>
  The completion channel and its event counter between the threads of the runtime and the
  thread that polls, one access at a time: a producer first sends its completion
  and then signals the counter, \<^verbatim>\<open>na_libp2p_poll\<close> first drains the counter and then empties the
  channel, and the other thread may act between any two of these accesses.
\<close>

section \<open>The interleaved accesses\<close>

text \<open>
  The shared state, the number of producers between their send and their signal, whether the
  poll loop is running, and the completions sent and taken so far.
\<close>

record 'pid comp_state =
  cs_na :: "'pid na_state"
  cs_unsignalled :: nat
  cs_polling :: bool
  cs_sent :: "completion_item list"
  cs_taken :: "completion_item list"

definition push_completion :: "completion_item \<Rightarrow> 'pid na_state \<Rightarrow> 'pid na_state" where
  "push_completion c w = w\<lparr>completion_rx := completion_rx w @ [c]\<rparr>"

inductive comp_step :: "'pid comp_state \<Rightarrow> 'pid comp_state \<Rightarrow> bool" where
  producer_sends:
    "comp_step s (s\<lparr>cs_na := push_completion c (cs_na s), cs_unsignalled := Suc (cs_unsignalled s),
                   cs_sent := cs_sent s @ [c]\<rparr>)"
| producer_signals:
    "cs_unsignalled s = Suc k \<Longrightarrow>
     comp_step s (s\<lparr>cs_na := signal_eventfd (cs_na s), cs_unsignalled := k\<rparr>)"
| poll_starts:
    "\<not> cs_polling s \<Longrightarrow>
     comp_step s (s\<lparr>cs_na := drain_eventfd (cs_na s), cs_polling := True\<rparr>)"
| poll_takes:
    "cs_polling s \<Longrightarrow> completion_rx (cs_na s) = c # cs \<Longrightarrow>
     poll_one c ((cs_na s)\<lparr>completion_rx := cs\<rparr>) = Some w \<Longrightarrow>
     comp_step s (s\<lparr>cs_na := w, cs_taken := cs_taken s @ [c]\<rparr>)"
| poll_ends:
    "cs_polling s \<Longrightarrow> completion_rx (cs_na s) = [] \<Longrightarrow> comp_step s (s\<lparr>cs_polling := False\<rparr>)"

inductive_cases comp_stepE: "comp_step s s'"

definition comp_init :: "'pid comp_state \<Rightarrow> bool" where
  "comp_init s \<longleftrightarrow> completion_rx (cs_na s) = [] \<and> cs_unsignalled s = 0 \<and> \<not> cs_polling s \<and>
     cs_sent s = [] \<and> cs_taken s = []"

section \<open>The invariant\<close>

definition comp_inv :: "'pid comp_state \<Rightarrow> bool" where
  "comp_inv s \<longleftrightarrow> cs_sent s = cs_taken s @ completion_rx (cs_na s) \<and>
     (cs_polling s \<or> completion_rx (cs_na s) = [] \<or> event_fd (cs_na s) > 0 \<or> cs_unsignalled s > 0)"

lemma signal_eventfd_positive: "event_fd (signal_eventfd w) > 0"
proof (cases "event_fd w < - 2")
  case True
  then have "event_fd w + 1 \<noteq> 0" by (auto simp: eq_neg_iff_add_eq_0 [symmetric])
  with True show ?thesis by (simp add: signal_eventfd_def word_neq_0_conv)
next
  case False
  moreover have "(- 2 :: u64) > 0" by (simp add: word_neq_0_conv [symmetric])
  ultimately have "event_fd w \<noteq> 0" by auto
  with False show ?thesis by (simp add: signal_eventfd_def word_neq_0_conv)
qed

lemma poll_one_rx: "poll_one c w = Some w' \<Longrightarrow> completion_rx w' = completion_rx w"
  by (auto simp: poll_one_def put_op_def na_cb_completion_add_def free_addr_def Let_def
      split: Option.bind_splits option.splits if_splits)

lemma comp_inv_step:
  assumes "comp_step s s'" and "comp_inv s"
  shows "comp_inv s'"
  using assms(1)
proof (rule comp_stepE)
  fix k
  assume "s' = s\<lparr>cs_na := signal_eventfd (cs_na s), cs_unsignalled := k\<rparr>"
  moreover have "completion_rx (signal_eventfd (cs_na s)) = completion_rx (cs_na s)"
    by (simp add: signal_eventfd_def)
  ultimately show ?thesis using assms(2) by (simp add: comp_inv_def signal_eventfd_positive)
next
  fix c cs w
  assume "s' = s\<lparr>cs_na := w, cs_taken := cs_taken s @ [c]\<rparr>" "cs_polling s"
    "completion_rx (cs_na s) = c # cs" "poll_one c ((cs_na s)\<lparr>completion_rx := cs\<rparr>) = Some w"
  with assms(2) show ?thesis by (auto simp: comp_inv_def dest: poll_one_rx)
qed (use assms(2) in \<open>auto simp: comp_inv_def push_completion_def drain_eventfd_def\<close>)

lemma comp_inv_reachable: "comp_step\<^sup>*\<^sup>* s s' \<Longrightarrow> comp_inv s \<Longrightarrow> comp_inv s'"
  by (induction rule: rtranclp_induct) (blast dest: comp_inv_step)+

section \<open>The operations are runs of the accesses\<close>

lemma send_completion_steps:
  "comp_step\<^sup>*\<^sup>* s (s\<lparr>cs_na := send_completion c (cs_na s), cs_sent := cs_sent s @ [c]\<rparr>)"
proof -
  let ?s = "s\<lparr>cs_na := push_completion c (cs_na s), cs_unsignalled := Suc (cs_unsignalled s),
               cs_sent := cs_sent s @ [c]\<rparr>"
  have "comp_step s ?s" by (rule producer_sends)
  moreover have "comp_step ?s (?s\<lparr>cs_na := signal_eventfd (cs_na ?s), cs_unsignalled := cs_unsignalled s\<rparr>)"
    by (rule producer_signals) simp
  ultimately have "comp_step\<^sup>*\<^sup>* s (?s\<lparr>cs_na := signal_eventfd (cs_na ?s), cs_unsignalled := cs_unsignalled s\<rparr>)"
    by (meson converse_rtranclp_into_rtranclp r_into_rtranclp)
  then show ?thesis by (cases s) (simp add: send_completion_def push_completion_def)
qed

lemma poll_loop_steps:
  assumes "cs_polling s" and "poll_loop (completion_rx (cs_na s)) k (cs_na s) = Some (n, w)"
  shows "comp_step\<^sup>*\<^sup>* s (s\<lparr>cs_na := w, cs_taken := cs_taken s @ completion_rx (cs_na s)\<rparr>)
    \<and> completion_rx w = []"
  using assms
proof (induction "completion_rx (cs_na s)" arbitrary: s k)
  case Nil
  from Nil.hyps [symmetric] Nil.prems(2) show ?case by (cases s) auto
next
  case (Cons c cs)
  note rx0 = Cons.hyps(2) [symmetric]
  from Cons.prems(2) [unfolded rx0] obtain w1 where
    one: "poll_one c ((cs_na s)\<lparr>completion_rx := cs\<rparr>) = Some w1" "poll_loop cs (k + 1) w1 = Some (n, w)"
    by (auto split: Option.bind_splits)
  let ?s = "s\<lparr>cs_na := w1, cs_taken := cs_taken s @ [c]\<rparr>"
  have rx1: "completion_rx w1 = cs" using poll_one_rx [OF one(1)] by simp
  have "comp_step s ?s"
    using Cons.prems(1) rx0 one(1) by (rule poll_takes)
  moreover have "comp_step\<^sup>*\<^sup>* ?s (?s\<lparr>cs_na := w, cs_taken := cs_taken ?s @ cs\<rparr>) \<and> completion_rx w = []"
    using Cons.hyps(1) [of ?s "k + 1"] Cons.prems(1) one(2) by (simp add: rx1)
  moreover have "?s\<lparr>cs_na := w, cs_taken := cs_taken ?s @ cs\<rparr>
      = s\<lparr>cs_na := w, cs_taken := cs_taken s @ completion_rx (cs_na s)\<rparr>"
    by (simp add: rx0)
  ultimately show ?case by (metis converse_rtranclp_into_rtranclp)
qed

lemma poll_steps:
  assumes "\<not> cs_polling s" and "na_libp2p_poll (cs_na s) = Some (r, n, w)"
  shows "comp_step\<^sup>*\<^sup>* s (s\<lparr>cs_na := w, cs_taken := cs_taken s @ completion_rx (cs_na s)\<rparr>)"
proof -
  let ?s = "s\<lparr>cs_na := drain_eventfd (cs_na s), cs_polling := True\<rparr>"
  let ?t = "?s\<lparr>cs_na := w, cs_taken := cs_taken s @ completion_rx (cs_na s)\<rparr>"
  have "completion_rx (drain_eventfd (cs_na s)) = completion_rx (cs_na s)" by (simp add: drain_eventfd_def)
  with assms(2) have "poll_loop (completion_rx (cs_na ?s)) 0 (cs_na ?s) = Some (n, w)"
    "completion_rx (cs_na ?s) = completion_rx (cs_na s)"
    by (auto simp: na_libp2p_poll_def split: Option.bind_splits)
  with poll_loop_steps [of ?s 0 n w] have "comp_step\<^sup>*\<^sup>* ?s ?t" "completion_rx w = []" by simp_all
  moreover from this(2) have "comp_step ?t (?t\<lparr>cs_polling := False\<rparr>)" by (intro poll_ends) simp_all
  moreover have "comp_step s ?s" using assms(1) by (rule poll_starts)
  ultimately have "comp_step\<^sup>*\<^sup>* s (?t\<lparr>cs_polling := False\<rparr>)"
    by (meson converse_rtranclp_into_rtranclp rtranclp.rtrancl_into_rtrancl)
  with assms(1) show ?thesis by (cases s) simp
qed

section \<open>No completion is lost\<close>

text \<open>C5: however the producers and the polling thread interleave, completions are taken in the
  order in which they were sent, none lost and none twice, and no wake-up is lost: once every
  producer has signalled, a channel that is not empty after a poll has a readable event
  counter, so a thread that waits on it wakes up.\<close>

theorem no_lost_wakeup:
  assumes "comp_init s" and "comp_step\<^sup>*\<^sup>* s s'"
  shows "cs_sent s' = cs_taken s' @ completion_rx (cs_na s') \<and>
    (\<not> cs_polling s' \<and> cs_unsignalled s' = 0 \<and> \<not> na_libp2p_poll_try_wait (cs_na s') \<longrightarrow>
       event_fd (cs_na s') > 0)"
proof -
  have "comp_inv s" using assms(1) by (simp add: comp_init_def comp_inv_def)
  from comp_inv_reachable [OF assms(2) this] show ?thesis
    by (auto simp: comp_inv_def na_libp2p_poll_try_wait_def)
qed

definition example_comp :: "u8 comp_state" where
  "example_comp = \<lparr>cs_na = example_state, cs_unsignalled = 0, cs_polling = False, cs_sent = [], cs_taken = []\<rparr>"

theorem no_lost_wakeup_witness:
  "\<exists>s'. comp_step\<^sup>*\<^sup>* example_comp s' \<and>
     completion_rx (cs_na s') = [\<lparr>ci_op_ptr = 1, ci_result = NA_SUCCESS, ci_recv_info = None\<rparr>] \<and>
     event_fd (cs_na s') > 0"
proof -
  let ?c = "\<lparr>ci_op_ptr = 1, ci_result = NA_SUCCESS, ci_recv_info = None\<rparr>"
  let ?s = "example_comp\<lparr>cs_na := send_completion ?c (cs_na example_comp), cs_sent := cs_sent example_comp @ [?c]\<rparr>"
  have "comp_init example_comp" by (simp add: comp_init_def example_comp_def)
  from no_lost_wakeup [OF this send_completion_steps [of example_comp ?c]]
  have "event_fd (cs_na ?s) > 0" by (simp add: example_comp_def na_libp2p_poll_try_wait_def)
  moreover have "completion_rx (cs_na ?s) = [?c]" by (simp add: example_comp_def)
  ultimately show ?thesis using send_completion_steps by blast
qed

end
