(* ===== verification/Startup.thy ===== *)
theory Startup
  imports System
begin

text \<open>
  The life of an endpoint (\<^verbatim>\<open>src/src/plugin.rs\<close>, \<^verbatim>\<open>src/src/runtime.rs\<close>): building the swarm and
  waiting for its listen addresses, the reservation with a relay server, the initial class
  state, and shutdown. The swarm is libp2p: what it answers is an argument, what it yields
  is a list of events.
\<close>

section \<open>Sizes, tags and contexts\<close>

definition MAX_MSG_SIZE :: usize where
  "MAX_MSG_SIZE = 64 * 1024"

definition na_libp2p_msg_get_max_unexpected_size :: usize where
  "na_libp2p_msg_get_max_unexpected_size = MAX_MSG_SIZE"

definition na_libp2p_msg_get_max_expected_size :: usize where
  "na_libp2p_msg_get_max_expected_size = MAX_MSG_SIZE"

definition na_libp2p_msg_get_max_tag :: u32 where
  "na_libp2p_msg_get_max_tag = - 1"

definition na_libp2p_context_create :: "na_return \<times> ptr" where
  "na_libp2p_context_create = (NA_SUCCESS, null_ptr)"

definition na_libp2p_context_destroy :: na_return where
  "na_libp2p_context_destroy = NA_SUCCESS"

section \<open>Outcomes of the start\<close>

text \<open>
  A result, an error of Rust's \<^verbatim>\<open>?\<close>, a panic, or a wait for an event that the swarm has not
  yielded.
\<close>

datatype 'a outcome = Ok 'a | Err string | Panic string | Blocked

fun bind_outcome :: "'a outcome \<Rightarrow> ('a \<Rightarrow> 'b outcome) \<Rightarrow> 'b outcome" where
  "bind_outcome (Ok a) f = f a"
| "bind_outcome (Err e) f = Err e"
| "bind_outcome (Panic e) f = Panic e"
| "bind_outcome Blocked f = Blocked"

lemma bind_outcome_eq_Ok: "bind_outcome r f = Ok b \<longleftrightarrow> (\<exists>a. r = Ok a \<and> f a = Ok b)"
  by (cases r) auto

section \<open>The swarm\<close>

text \<open>
  What the swarm answers: the builder with TCP and QUIC enabled or not, listening on an
  address, dialing, and accepting the protocol.
\<close>

record 'pid boot_env =
  bt_build :: "bool \<Rightarrow> bool \<Rightarrow> string + 'pid"
  bt_listen :: "'pid multiaddr \<Rightarrow> string + nat"
  bt_dial :: "'pid \<Rightarrow> 'pid multiaddr list \<Rightarrow> string option"
  bt_accept :: bool

datatype 'pid init_event =
  NewListenAddr "'pid multiaddr" nat
| InitEstablished 'pid
| InitOutgoingError "'pid option" string
| InitOther
| StreamEnded

datatype 'pid init_call =
  ListenOn "'pid multiaddr"
| AddExternalAddress "'pid multiaddr"
| InitAddPeer 'pid "'pid multiaddr"
| InitDial 'pid "'pid multiaddr list"

definition extract_peer_id_from_multiaddr :: "'pid multiaddr \<Rightarrow> 'pid option" where
  "extract_peer_id_from_multiaddr ma =
     fold (\<lambda>p acc. case p of P2p q \<Rightarrow> Some q | _ \<Rightarrow> acc) ma None"

definition is_circuit :: "'pid multiaddr \<Rightarrow> bool" where
  "is_circuit ma \<longleftrightarrow> (\<exists>p\<in>set ma. p = P2pCircuit)"

fun build_swarm :: "'pid boot_env \<Rightarrow> bool \<Rightarrow> bool \<Rightarrow> 'pid outcome" where
  "build_swarm bt False False = Err ''No transport configured''"
| "build_swarm bt tcp quic = (case bt_build bt tcp quic of Inl e \<Rightarrow> Err e | Inr p \<Rightarrow> Ok p)"

fun listen_all :: "'pid boot_env \<Rightarrow> 'pid multiaddr list \<Rightarrow> nat list outcome" where
  "listen_all bt [] = Ok []"
| "listen_all bt (a # as) =
     (case bt_listen bt a of
        Inl e \<Rightarrow> Err e
      | Inr i \<Rightarrow> bind_outcome (listen_all bt as) (\<lambda>ids. Ok (List.insert i ids)))"

text \<open>The loop that waits until every listener has reported an address.\<close>

fun wait_listeners ::
  "nat list \<Rightarrow> 'pid init_event list \<Rightarrow> 'pid multiaddr list \<Rightarrow> nat list
     \<Rightarrow> ('pid multiaddr list \<times> 'pid init_event list) outcome" where
  "wait_listeners listener_ids [] resolved seen = Blocked"
| "wait_listeners listener_ids (NewListenAddr address i # evs) resolved seen =
     (let resolved = resolved @ [address];
          seen = (if i \<in> set listener_ids then List.insert i seen else seen)
      in if length seen \<ge> length listener_ids then Ok (resolved, evs)
         else wait_listeners listener_ids evs resolved seen)"
| "wait_listeners listener_ids (StreamEnded # evs) resolved seen = Err ''Swarm stream ended during init''"
| "wait_listeners listener_ids (_ # evs) resolved seen = wait_listeners listener_ids evs resolved seen"

text \<open>The loop that waits for the connection to the relay server.\<close>

fun wait_relay ::
  "('pid \<Rightarrow> string) \<Rightarrow> 'pid \<Rightarrow> 'pid init_event list \<Rightarrow> 'pid multiaddr list
     \<Rightarrow> ('pid multiaddr list \<times> 'pid init_event list) outcome" where
  "wait_relay show_pid relay_peer [] resolved = Blocked"
| "wait_relay show_pid relay_peer (InitEstablished p # evs) resolved =
     (if p = relay_peer then Ok (resolved, evs) else wait_relay show_pid relay_peer evs resolved)"
| "wait_relay show_pid relay_peer (InitOutgoingError po error # evs) resolved =
     (if po = Some relay_peer
      then Err (''Failed to connect to relay server '' @ show_pid relay_peer @ '': '' @ error)
      else wait_relay show_pid relay_peer evs resolved)"
| "wait_relay show_pid relay_peer (NewListenAddr address i # evs) resolved =
     wait_relay show_pid relay_peer evs (resolved @ [address])"
| "wait_relay show_pid relay_peer (InitOther # evs) resolved = wait_relay show_pid relay_peer evs resolved"
| "wait_relay show_pid relay_peer (StreamEnded # evs) resolved = Err ''Swarm stream ended during relay init''"

text \<open>The loop that waits for the circuit address of the reservation.\<close>

fun wait_circuit ::
  "'pid init_event list \<Rightarrow> 'pid multiaddr list \<Rightarrow> ('pid multiaddr list \<times> 'pid init_event list) outcome" where
  "wait_circuit [] resolved = Blocked"
| "wait_circuit (NewListenAddr address i # evs) resolved =
     (if is_circuit address then Ok (resolved @ [address], evs)
      else wait_circuit evs (resolved @ [address]))"
| "wait_circuit (StreamEnded # evs) resolved = Err ''Swarm stream ended waiting for relay reservation''"
| "wait_circuit (_ # evs) resolved = wait_circuit evs resolved"

definition init_relay ::
  "('pid \<Rightarrow> string) \<Rightarrow> 'pid boot_env \<Rightarrow> 'pid multiaddr \<Rightarrow> 'pid init_event list \<Rightarrow> 'pid multiaddr list
     \<Rightarrow> ('pid multiaddr list \<times> 'pid init_call list \<times> 'pid init_event list) outcome" where
  "init_relay show_pid bt relay_ma evs resolved =
     (case extract_peer_id_from_multiaddr relay_ma of
        None \<Rightarrow> Panic ''MERCURY_RELAY_ADDR must contain /p2p/<peer_id>''
      | Some relay_peer \<Rightarrow>
          let relay_transport_ma = takeWhile (\<lambda>p. \<not> is_p2p p) relay_ma;
              circuit_ma = relay_ma @ [P2pCircuit] in
          case bt_dial bt relay_peer [relay_transport_ma] of
            Some e \<Rightarrow> Err e
          | None \<Rightarrow>
              bind_outcome (wait_relay show_pid relay_peer evs resolved) (\<lambda>(resolved, evs).
                case bt_listen bt circuit_ma of
                  Inl e \<Rightarrow> Err e
                | Inr _ \<Rightarrow>
                    bind_outcome (wait_circuit evs resolved) (\<lambda>(resolved, evs).
                      Ok (resolved,
                          [InitAddPeer relay_peer relay_transport_ma, InitDial relay_peer [relay_transport_ma],
                           ListenOn circuit_ma],
                          evs))))"

text \<open>
  What the start hands over: the peer id and resolved addresses, the calls made on the swarm
  in their order, and the relay peer and the initial state of the event loop.
\<close>

record 'pid spawned =
  sp_peer :: 'pid
  sp_resolved :: "'pid multiaddr list"
  sp_calls :: "'pid init_call list"
  sp_relay_peer :: "'pid option"
  sp_loop :: "'pid loop_state"

definition spawn_swarm_task ::
  "('pid \<Rightarrow> string) \<Rightarrow> 'pid boot_env \<Rightarrow> 'pid multiaddr list \<Rightarrow> transport_config \<Rightarrow> 'pid multiaddr option
     \<Rightarrow> 'pid init_event list \<Rightarrow> 'pid spawned outcome" where
  "spawn_swarm_task show_pid bt addrs cfg relay evs =
     bind_outcome (build_swarm bt (tc_tcp cfg) (tc_quic cfg)) (\<lambda>peer.
     bind_outcome (listen_all bt addrs) (\<lambda>listener_ids.
     bind_outcome (wait_listeners listener_ids evs [] []) (\<lambda>(resolved, evs).
       let external = map AddExternalAddress (filter (\<lambda>a. \<not> is_circuit a) resolved) in
       bind_outcome
         (case relay of
            None \<Rightarrow> Ok (resolved, [], evs)
          | Some relay_ma \<Rightarrow> init_relay show_pid bt relay_ma evs resolved) (\<lambda>(resolved, relay_calls, evs).
         if \<not> bt_accept bt then Panic ''Failed to register protocol''
         else Ok \<lparr>sp_peer = peer, sp_resolved = resolved,
                  sp_calls = map ListenOn addrs @ external @ relay_calls,
                  sp_relay_peer = Option.bind relay extract_peer_id_from_multiaddr,
                  sp_loop = loop_init\<rparr>))))"

section \<open>Initialization\<close>

text \<open>
  What the environment provides: whether the tokio runtime and an event descriptor can be
  created, the value of
  \<^verbatim>\<open>MERCURY_RELAY_ADDR\<close>, the address of the host, and the memory of the process.
\<close>

record init_env =
  ie_runtime :: bool
  ie_eventfd :: bool
  ie_relay_var :: "string option"
  ie_host :: "ip_addr option"
  ie_memory :: "ptr \<rightharpoonup> u8"

text \<open>
  How a call ends: it returns with a class state or none and leaves a number of event
  descriptors open, or it panics, or it still waits for the swarm.
\<close>

datatype 'pid init_result =
  Returned na_return "('pid system \<times> 'pid spawned) option" nat
| Aborted string
| Waiting

definition bind_addrs :: "'pid libp2p \<Rightarrow> bool \<Rightarrow> transport_config \<Rightarrow> 'pid multiaddr list option" where
  "bind_addrs L listen cfg =
     (let bind_ip = (if listen then ''0.0.0.0'' else ''127.0.0.1'') in do {
        tcp \<leftarrow> (if tc_tcp cfg then map_option (\<lambda>a. [a]) (ma_parse L (''/ip4/'' @ bind_ip @ ''/tcp/0'')) else Some []);
        quic \<leftarrow> (if tc_quic cfg then map_option (\<lambda>a. [a]) (ma_parse L (''/ip4/'' @ bind_ip @ ''/udp/0/quic-v1''))
                 else Some []);
        Some (tcp @ quic)
      })"

definition class_state ::
  "init_env \<Rightarrow> transport_config \<Rightarrow> 'pid multiaddr option \<Rightarrow> 'pid multiaddr \<Rightarrow> 'pid spawned \<Rightarrow> 'pid na_state" where
  "class_state ie cfg relay self_ma sp =
     \<lparr>op_box = Map.empty, addr_box = Map.empty, mh_box = Map.empty, memory = ie_memory ie, next_box = 1,
      self_addr = \<lparr>peer_id = sp_peer sp, multiaddr = Some self_ma, is_self = True\<rparr>,
      queues = operation_queues_new, cmd_tx = [], cmd_closed = False, next_chan = 0,
      completion_rx = [], event_fd = 0, mem_handles = Map.empty, next_mem_handle_id = 1,
      transport_cfg = cfg, listen_addrs = map (resolve_multiaddr (ie_host ie)) (sp_resolved sp),
      relay_addr = relay, na_completions = []\<rparr>"

text \<open>The relay server that is configured, \<^const>\<open>None\<close> when its address does not parse.\<close>

definition read_relay_addr :: "'pid libp2p \<Rightarrow> init_env \<Rightarrow> transport_config \<Rightarrow> 'pid multiaddr option option" where
  "read_relay_addr L ie cfg =
     (if tc_relay cfg then
        (case ie_relay_var ie of Some val \<Rightarrow> map_option Some (ma_parse L val) | None \<Rightarrow> Some None)
      else Some None)"

text \<open>The class together with the tasks that the runtime has spawned.\<close>

definition endpoint :: "'pid na_state \<Rightarrow> 'pid spawned \<Rightarrow> 'pid system" where
  "endpoint w sp = \<lparr>sys_in = \<lparr>in_na = w, in_pool = pool_new, in_result = 0\<rparr>, sys_loop = sp_loop sp\<rparr>"

definition na_libp2p_initialize ::
  "'pid libp2p \<Rightarrow> ('pid \<Rightarrow> string) \<Rightarrow> 'pid boot_env \<Rightarrow> init_env \<Rightarrow> string option \<Rightarrow> bool \<Rightarrow> 'pid init_event list
     \<Rightarrow> 'pid init_result" where
  "na_libp2p_initialize L show_pid bt ie name listen evs =
     (let cfg = parse_transport_config (case name of Some s \<Rightarrow> s | None \<Rightarrow> []) in
      if \<not> ie_runtime ie then Returned NA_PROTOCOL_ERROR None 0
      else if \<not> ie_eventfd ie then Aborted ''eventfd creation failed''
      else case bind_addrs L listen cfg of
        None \<Rightarrow> Aborted ''called Result::unwrap() on an Err value''
      | Some addrs \<Rightarrow>
          case read_relay_addr L ie cfg of
            None \<Rightarrow> Returned NA_PROTOCOL_ERROR None 1
          | Some relay_ma \<Rightarrow>
              case spawn_swarm_task show_pid bt addrs cfg relay_ma evs of
                Blocked \<Rightarrow> Waiting
              | Panic e \<Rightarrow> Aborted e
              | Err e \<Rightarrow> Returned NA_PROTOCOL_ERROR None 0
              | Ok sp \<Rightarrow>
                  case resolve_self_multiaddr (ie_host ie) (sp_resolved sp) (tc_priority cfg) of
                    None \<Rightarrow> Aborted ''index out of bounds''
                  | Some self_ma \<Rightarrow> Returned NA_SUCCESS (Some (endpoint (class_state ie cfg relay_ma self_ma sp) sp, sp)) 1)"

section \<open>Shutdown\<close>

text \<open>
  \<^verbatim>\<open>finalize\<close> of a class, if there is one: send \<open>Shutdown\<close>, wait for the event loop to end, drop
  the runtime with all its tasks and the class with its queues and channels. \<open>turns\<close> are the
  turns that the event loop takes meanwhile; \<^const>\<open>None\<close> is a wait that has not ended. What is
  left is the heap of the boxes that raw pointers refer to.
\<close>

definition drop_class :: "'pid na_state \<Rightarrow> 'pid na_state" where
  "drop_class w =
     w\<lparr>queues := operation_queues_new, cmd_tx := [], cmd_closed := True, completion_rx := [],
       mem_handles := Map.empty\<rparr>"

definition na_libp2p_finalize ::
  "'pid config \<Rightarrow> ('pid swarm_env \<times> 'pid loop_input) list \<Rightarrow> 'pid system option
     \<Rightarrow> (na_return \<times> 'pid system option) option" where
  "na_libp2p_finalize cf turns plugin_class =
     (case plugin_class of
        None \<Rightarrow> Some (NA_SUCCESS, None)
      | Some s \<Rightarrow>
          let w = send_cmd Shutdown (na s);
              ls = loop_run (cf_show cf) (cf_relay cf) (cf_relay_peer cf) turns (sys_loop s) in
          if running ls then None
          else Some (NA_SUCCESS, Some (set_na (drop_class w) (s\<lparr>sys_loop := ls\<lparr>tasks := []\<rparr>\<rparr>))))"

section \<open>Waiting for the listeners\<close>

text \<open>The addresses that events report, and the listeners that report them.\<close>

fun reported :: "'pid init_event list \<Rightarrow> ('pid multiaddr \<times> nat) list" where
  "reported [] = []"
| "reported (NewListenAddr a i # evs) = (a, i) # reported evs"
| "reported (_ # evs) = reported evs"

lemma reported_append [simp]: "reported (xs @ ys) = reported xs @ reported ys"
  by (induction xs rule: reported.induct) simp_all

text \<open>What the wait returns is what the events up to its end report.\<close>

lemma wait_listeners_sound:
  assumes "wait_listeners ids evs resolved seen = Ok (resolved', rest)" and "distinct ids" and "distinct seen"
    and "set seen \<subseteq> set ids"
  shows "\<exists>pre. evs = pre @ rest \<and> resolved' = resolved @ map fst (reported pre) \<and> reported pre \<noteq> [] \<and>
    set ids \<subseteq> set seen \<union> snd ` set (reported pre)"
  using assms(1,3,4)
proof (induction evs arbitrary: resolved seen)
  case Nil
  then show ?case by simp
next
  case (Cons ev evs)
  have skip: ?case if "wait_listeners ids evs resolved seen = Ok (resolved', rest)" "reported (ev # evs') = reported evs'" for evs'
  proof -
    from Cons.IH [OF that(1) Cons.prems(2,3)] obtain pre where
      "evs = pre @ rest" "resolved' = resolved @ map fst (reported pre)" "reported pre \<noteq> []"
      "set ids \<subseteq> set seen \<union> snd ` set (reported pre)" by blast
    then show ?thesis using that(2) by (intro exI [of _ "ev # pre"]) (cases ev; simp)
  qed
  show ?case
  proof (cases ev)
    case (NewListenAddr a i)
    define seen' where "seen' = (if i \<in> set ids then List.insert i seen else seen)"
    have seen': "distinct seen'" "set seen' \<subseteq> set ids" "set seen' \<subseteq> insert i (set seen)"
      using Cons.prems by (auto simp: seen'_def)
    show ?thesis
    proof (cases "length ids \<le> length seen'")
      case True
      with seen' \<open>distinct ids\<close> have "set seen' = set ids"
        by (metis card_mono card_subset_eq distinct_card finite_set le_antisym)
      with True Cons.prems(1) seen'(3) NewListenAddr show ?thesis
        by (intro exI [of _ "[ev]"]) (auto simp: seen'_def Let_def split: if_splits)
    next
      case False
      then have "wait_listeners ids evs (resolved @ [a]) seen' = Ok (resolved', rest)"
        using Cons.prems(1) by (simp add: NewListenAddr seen'_def Let_def)
      from Cons.IH [OF this seen'(1,2)] obtain pre where
        "evs = pre @ rest" "resolved' = (resolved @ [a]) @ map fst (reported pre)"
        "set ids \<subseteq> set seen' \<union> snd ` set (reported pre)" by auto
      with seen'(3) NewListenAddr show ?thesis by (intro exI [of _ "ev # pre"]) auto
    qed
  qed (use Cons.prems(1) skip in auto)
qed

lemma wait_listeners_ends:
  assumes "StreamEnded \<notin> set evs" and "set ids \<subseteq> set seen \<union> snd ` set (reported evs)" and "reported evs \<noteq> []"
    and "distinct ids"
  shows "\<exists>resolved' rest. wait_listeners ids evs resolved seen = Ok (resolved', rest)"
  using assms
proof (induction ids evs resolved seen rule: wait_listeners.induct)
  case (2 ids a i evs resolved seen)
  define seen' where "seen' = (if i \<in> set ids then List.insert i seen else seen)"
  have sub: "set ids \<subseteq> set seen' \<union> snd ` set (reported evs)" using "2.prems"(2) by (auto simp: seen'_def)
  show ?case
  proof (cases "length ids \<le> length seen'")
    case True
    then show ?thesis by (simp add: seen'_def Let_def)
  next
    case False
    have "reported evs \<noteq> []"
    proof
      assume "reported evs = []"
      with sub have "set ids \<subseteq> set seen'" by simp
      then have "card (set ids) \<le> card (set seen')" by (simp add: card_mono)
      with False \<open>distinct ids\<close> card_length [of seen'] show False by (simp add: distinct_card)
    qed
    with "2.IH" [OF refl seen'_def] "2.prems" sub False show ?thesis by (auto simp: seen'_def Let_def)
  qed
qed auto

text \<open>C13: the start does not hang on the listeners and does not miss one: once every listener has
  reported an address (and while the stream of events lasts), the wait ends; it has then consumed
  exactly a prefix of the events, resolved exactly the addresses these report, in their order, and
  every listener is among the reporters.\<close>

theorem wait_listeners_returns:
  assumes "StreamEnded \<notin> set evs" and "reported evs \<noteq> []" and "set ids \<subseteq> snd ` set (reported evs)"
    and "distinct ids"
  shows "\<exists>pre rest. evs = pre @ rest \<and> wait_listeners ids evs [] [] = Ok (map fst (reported pre), rest) \<and>
    reported pre \<noteq> [] \<and> set ids \<subseteq> snd ` set (reported pre)"
proof -
  from wait_listeners_ends [of evs ids "[]" "[]"] assms obtain resolved rest where
    "wait_listeners ids evs [] [] = Ok (resolved, rest)" by auto
  with wait_listeners_sound [OF this] assms show ?thesis by auto
qed

theorem wait_listeners_returns_witness:
  "\<exists>pre rest. [InitOther, NewListenAddr [Tcp 5] 1, NewListenAddr [Tcp 6] 1, NewListenAddr [Udp 7] 2, InitEstablished (9::u8)]
       = pre @ rest \<and>
     wait_listeners [1, 2] [InitOther, NewListenAddr [Tcp 5] 1, NewListenAddr [Tcp 6] 1, NewListenAddr [Udp 7] 2,
       InitEstablished (9::u8)] [] [] = Ok (map fst (reported pre), rest) \<and>
     reported pre \<noteq> [] \<and> set [1, 2] \<subseteq> snd ` set (reported pre)"
  by (rule wait_listeners_returns) auto

section \<open>Starting an endpoint\<close>

lemma listen_all_distinct: "listen_all bt as = Ok ids \<Longrightarrow> distinct ids"
  by (induction as arbitrary: ids) (auto simp: bind_outcome_eq_Ok split: sum.splits)

lemma wait_relay_extends:
  "wait_relay sp rp evs resolved = Ok (resolved', rest) \<Longrightarrow> \<exists>more. resolved' = resolved @ more"
  by (induction sp rp evs resolved rule: wait_relay.induct) (auto split: if_splits)

lemma wait_circuit_extends:
  "wait_circuit evs resolved = Ok (resolved', rest) \<Longrightarrow>
   \<exists>more. resolved' = resolved @ more \<and> more \<noteq> [] \<and> is_circuit (last more) \<and> (\<forall>a\<in>set (butlast more). \<not> is_circuit a)"
proof (induction evs resolved rule: wait_circuit.induct)
  case (2 a i evs resolved)
  show ?case
  proof (cases "is_circuit a")
    case True
    then show ?thesis using 2 by (intro exI [of _ "[a]"]) auto
  next
    case False
    with 2 obtain more where "resolved' = (resolved @ [a]) @ more" "more \<noteq> []" "is_circuit (last more)"
      "\<forall>b\<in>set (butlast more). \<not> is_circuit b" by auto
    with False show ?thesis by (intro exI [of _ "a # more"]) auto
  qed
qed auto

lemma init_relay_Ok:
  assumes "init_relay sp bt relay_ma evs resolved = Ok (resolved', calls, rest)"
  obtains more peer where "resolved' = resolved @ more" "more \<noteq> []" "is_circuit (last more)"
    "extract_peer_id_from_multiaddr relay_ma = Some peer"
  using assms
  by (cases "bt_listen bt (relay_ma @ [P2pCircuit])")
    (auto simp: init_relay_def Let_def bind_outcome_eq_Ok split: option.splits sum.splits
        dest!: wait_relay_extends wait_circuit_extends)

text \<open>The relay server's reservation, or nothing.\<close>

lemma spawn_swarm_task_Ok:
  assumes "spawn_swarm_task sp bt addrs cfg relay evs = Ok spd"
  shows "sp_resolved spd \<noteq> []" and "sp_loop spd = loop_init" and
    "relay \<noteq> None \<Longrightarrow> sp_relay_peer spd \<noteq> None \<and> is_circuit (last (sp_resolved spd))"
proof -
  from assms obtain ids resolved evs' r calls rest where
    ids: "listen_all bt addrs = Ok ids" and w: "wait_listeners ids evs [] [] = Ok (resolved, evs')" and
    rl: "(case relay of None \<Rightarrow> Ok (resolved, [], evs') | Some relay_ma \<Rightarrow> init_relay sp bt relay_ma evs' resolved)
      = Ok (r, calls, rest)" and
    spd: "sp_resolved spd = r" "sp_loop spd = loop_init"
    "sp_relay_peer spd = Option.bind relay extract_peer_id_from_multiaddr"
    by (auto simp: spawn_swarm_task_def bind_outcome_eq_Ok Let_def split: if_splits)
  from wait_listeners_sound [OF w listen_all_distinct [OF ids]] have ne: "resolved \<noteq> []" by auto
  show "sp_loop spd = loop_init" by (rule spd)
  show "sp_resolved spd \<noteq> []"
    using rl ne spd by (cases relay) (auto elim!: init_relay_Ok)
  show "relay \<noteq> None \<Longrightarrow> sp_relay_peer spd \<noteq> None \<and> is_circuit (last (sp_resolved spd))"
    using rl spd by (cases relay) (auto elim!: init_relay_Ok)
qed

text \<open>A class state that has just been built is fresh.\<close>

lemma class_state_fresh:
  assumes "sp_loop spd = loop_init"
  shows "fresh_system (endpoint (class_state ie cfg relay self_ma spd) spd)"
  using assms by (simp add: fresh_system_def endpoint_def class_state_def loop_init_def)

lemma find_in_set: "find P xs = Some x \<Longrightarrow> x \<in> set xs"
  by (auto simp: find_Some_iff)

lemma resolve_self_listed:
  assumes "resolve_self_multiaddr host resolved priority = Some ma"
  shows "ma \<in> resolve_multiaddr host ` set resolved"
  using assms
  by (auto simp: resolve_self_multiaddr_def Let_def split: list.splits transport_kind.splits option.splits if_splits
      dest: find_in_set)

lemma resolve_self_Some: "resolved \<noteq> [] \<Longrightarrow> resolve_self_multiaddr host resolved priority \<noteq> None"
  by (simp add: resolve_self_multiaddr_def Let_def split: list.split)

text \<open>C11: what a call of initialize that returns leaves behind. It succeeds exactly when there is a
  class. The class is then in a state that satisfies the invariant of the endpoint, its event loop
  runs, its own address is one of its listen addresses, and with a relay server configured it holds
  a reservation (a circuit address). When it fails, the event descriptor is closed again, except
  when the address of the relay server does not parse: then it leaks.\<close>

theorem initialize_returned:
  assumes "na_libp2p_initialize L show_pid bt ie name listen evs = Returned r c n"
    and "cfg = parse_transport_config (case name of Some s \<Rightarrow> s | None \<Rightarrow> [])"
  shows "(case c of
      None \<Rightarrow> r = NA_PROTOCOL_ERROR \<and> n = (if ie_runtime ie \<and> read_relay_addr L ie cfg = None then 1 else 0)
    | Some (s, spd) \<Rightarrow> r = NA_SUCCESS \<and> n = 1 \<and> sys_inv s \<and> busy s = [] \<and> running (sys_loop s) \<and>
        self_addr (na s) = \<lparr>peer_id = sp_peer spd, multiaddr = multiaddr (self_addr (na s)), is_self = True\<rparr> \<and>
        (\<exists>ma\<in>set (listen_addrs (na s)). multiaddr (self_addr (na s)) = Some ma) \<and>
        (relay_addr (na s) \<noteq> None \<longrightarrow> is_circuit (last (sp_resolved spd))))"
proof (cases c)
  case None
  then show ?thesis using assms
    by (auto simp: na_libp2p_initialize_def Let_def split: if_splits option.splits outcome.splits)
next
  case (Some x)
  obtain s spd where x: "x = (s, spd)" by (cases x)
  from assms Some x obtain addrs relay self_ma where
    spd: "spawn_swarm_task show_pid bt addrs cfg relay evs = Ok spd" and
    ma: "resolve_self_multiaddr (ie_host ie) (sp_resolved spd) (tc_priority cfg) = Some self_ma" and
    s: "s = endpoint (class_state ie cfg relay self_ma spd) spd" and rn: "r = NA_SUCCESS" "n = 1"
    by (auto simp: na_libp2p_initialize_def Let_def split: if_splits option.splits outcome.splits)
  note fresh = fresh_system_inv [OF class_state_fresh [OF spawn_swarm_task_Ok(2) [OF spd]]]
  show ?thesis
    using fresh rn resolve_self_listed [OF ma] spawn_swarm_task_Ok(2,3) [OF spd]
    by (auto simp: Some x s endpoint_def class_state_def loop_init_def)
qed

text \<open>C12: the start of an endpoint goes through: with a runtime, a swarm that can be built and that
  listens, and no relay server, initialize returns success with a fresh endpoint as soon as every
  listener has reported an address; whatever the client then does by the contract is defined.\<close>

theorem initialize_starts:
  assumes "ie_runtime ie" and "ie_eventfd ie" and "bt_accept bt"
    and "cfg = parse_transport_config (case name of Some s \<Rightarrow> s | None \<Rightarrow> [])"
    and "read_relay_addr L ie cfg = Some None"
    and "bind_addrs L listen cfg = Some addrs" and "listen_all bt addrs = Ok ids"
    and "bt_build bt (tc_tcp cfg) (tc_quic cfg) = Inr peer"
    and "StreamEnded \<notin> set evs" and "reported evs \<noteq> []" and "set ids \<subseteq> snd ` set (reported evs)"
  shows "\<exists>s spd. na_libp2p_initialize L show_pid bt ie name listen evs = Returned NA_SUCCESS (Some (s, spd)) 1 \<and>
    fresh_system s \<and> peer_id (self_addr (na s)) = peer \<and>
    (\<forall>cf as. keeps_contract cf as s \<longrightarrow> play cf as s \<noteq> None)"
proof -
  have build: "build_swarm bt (tc_tcp cfg) (tc_quic cfg) = Ok peer"
    using assms(8) parse_transport_config_enables [of "case name of Some s \<Rightarrow> s | None \<Rightarrow> []"]
    by (cases "tc_tcp cfg"; cases "tc_quic cfg") (auto simp: assms(4))
  from wait_listeners_ends [of evs ids "[]" "[]"] assms(9-11) listen_all_distinct [OF assms(7)] obtain resolved rest
    where "wait_listeners ids evs [] [] = Ok (resolved, rest)" by auto
  with build assms(3,7) obtain spd where
    spd: "spawn_swarm_task show_pid bt addrs cfg None evs = Ok spd" "sp_peer spd = peer"
    by (simp add: spawn_swarm_task_def Let_def)
  from resolve_self_Some [OF spawn_swarm_task_Ok(1) [OF spd(1)]] obtain ma where
    ma: "resolve_self_multiaddr (ie_host ie) (sp_resolved spd) (tc_priority cfg) = Some ma" by blast
  let ?s = "endpoint (class_state ie cfg None ma spd) spd"
  have fresh: "fresh_system ?s" by (rule class_state_fresh [OF spawn_swarm_task_Ok(2) [OF spd(1)]])
  have "na_libp2p_initialize L show_pid bt ie name listen evs = Returned NA_SUCCESS (Some (?s, spd)) 1"
    using assms(1,2,5,6) spd ma by (simp add: na_libp2p_initialize_def Let_def flip: assms(4))
  moreover have "play cf as ?s \<noteq> None" if "keeps_contract cf as ?s" for cf as
    using play_inv [OF fresh_system_inv(1) [OF fresh] that] by auto
  moreover have "peer_id (self_addr (na ?s)) = peer" by (simp add: endpoint_def class_state_def spd)
  ultimately show ?thesis using fresh by blast
qed

text \<open>C37: an address of a relay server without a peer id is not reported as an error: as soon as the
  listeners are up, the call panics.\<close>

theorem relay_without_peer_panics:
  assumes "ie_runtime ie" and "ie_eventfd ie"
    and "cfg = parse_transport_config (case name of Some s \<Rightarrow> s | None \<Rightarrow> [])"
    and "read_relay_addr L ie cfg = Some (Some relay_ma)" and "\<not> (\<exists>p\<in>set relay_ma. is_p2p p)"
    and "bind_addrs L listen cfg = Some addrs" and "listen_all bt addrs = Ok ids"
    and "bt_build bt (tc_tcp cfg) (tc_quic cfg) = Inr peer"
    and "StreamEnded \<notin> set evs" and "reported evs \<noteq> []" and "set ids \<subseteq> snd ` set (reported evs)"
  shows "na_libp2p_initialize L show_pid bt ie name listen evs =
    Aborted ''MERCURY_RELAY_ADDR must contain /p2p/<peer_id>''"
proof -
  have build: "build_swarm bt (tc_tcp cfg) (tc_quic cfg) = Ok peer"
    using assms(8) parse_transport_config_enables [of "case name of Some s \<Rightarrow> s | None \<Rightarrow> []"]
    by (cases "tc_tcp cfg"; cases "tc_quic cfg") (auto simp: assms(3))
  have "fold (\<lambda>p acc. case p of P2p q \<Rightarrow> Some q | _ \<Rightarrow> acc) relay_ma acc = acc" for acc
    using assms(5) by (induction relay_ma arbitrary: acc) (auto split: protocol.split)
  then have none: "extract_peer_id_from_multiaddr relay_ma = None" by (simp add: extract_peer_id_from_multiaddr_def)
  from wait_listeners_ends [of evs ids "[]" "[]"] assms(9-11) listen_all_distinct [OF assms(7)] obtain resolved rest
    where "wait_listeners ids evs [] [] = Ok (resolved, rest)" by auto
  with build assms(7) none have "spawn_swarm_task show_pid bt addrs cfg (Some relay_ma) evs =
      Panic ''MERCURY_RELAY_ADDR must contain /p2p/<peer_id>''"
    by (simp add: spawn_swarm_task_def init_relay_def Let_def)
  with assms(1,2,4,6) show ?thesis by (simp add: na_libp2p_initialize_def Let_def flip: assms(3))
qed

section \<open>Ending an endpoint\<close>

lemma loop_run_stopped [simp]: "\<not> running ls \<Longrightarrow> loop_run sp rm rp is ls = ls"
  by (cases "(sp, rm, rp, is, ls)" rule: loop_run.cases) auto

lemma loop_run_shutdown:
  "(E, Cmd Shutdown) \<in> set is \<Longrightarrow> \<not> running (loop_run sp rm rp is ls)"
  by (induction sp rm rp "is" ls rule: loop_run.induct) (auto simp: stop_loop_def)

definition taken_commands :: "('pid swarm_env \<times> 'pid loop_input) list \<Rightarrow> 'pid command list" where
  "taken_commands turns = concat (map (\<lambda>(E, i). case i of Cmd c \<Rightarrow> [c] | _ \<Rightarrow> []) turns)"

lemma taken_command: "c \<in> set (taken_commands turns) \<Longrightarrow> \<exists>E. (E, Cmd c) \<in> set turns"
  by (auto simp: taken_commands_def split: loop_input.splits)

text \<open>C14: finalize returns as soon as the event loop has worked off the commands in its channel, in
  whatever order events and deadlines come between them; it frees the class and ends all tasks, but
  the boxed source addresses of the messages that wait in the stashes or in the completion channel
  stay allocated with nothing left that refers to them.\<close>

theorem finalize_returns:
  assumes "na_inv (na s)" and "\<not> cmd_closed (na s)" and "taken_commands turns = cmd_tx (na s) @ [Shutdown]"
  shows "\<exists>s'. na_libp2p_finalize cf turns (Some s) = Some (NA_SUCCESS, Some s') \<and>
    \<not> running (sys_loop s') \<and> tasks (sys_loop s') = [] \<and> waiting_ops (na s') = [] \<and>
    set (owned_addrs (na s)) \<subseteq> dom (addr_box (na s')) \<and> owned_addrs (na s') = []"
proof -
  have "Shutdown \<in> set (taken_commands turns)" by (simp add: assms(3))
  then obtain E where "(E, Cmd Shutdown) \<in> set turns" using taken_command by blast
  from loop_run_shutdown [OF this] have
    "\<not> running (loop_run (cf_show cf) (cf_relay cf) (cf_relay_peer cf) turns (sys_loop s))" .
  with assms(1) show ?thesis
    by (simp add: na_libp2p_finalize_def Let_def set_na_def drop_class_def send_cmd_def assms(2) na_inv_def owned_ok_def
        na_parts owned_addrs_def channel_sources_def stash_addrs_def waiting_ops_def operation_queues_new_def)
qed

section \<open>Concrete starts and ends\<close>

text \<open>A swarm that listens on TCP and reserves a slot at a relay server.\<close>

definition boot_lib :: "u8 libp2p" where
  "boot_lib = example_lib\<lparr>ma_parse := (\<lambda>s.
     if s = ''/ip4/0.0.0.0/tcp/0'' then Some [Ip4 0, Tcp 0]
     else if s = ''relay'' then Some [Ip4 9, Tcp 4001, P2p 7]
     else if s = ''anonymous'' then Some [Ip4 9, Tcp 4001] else None)\<rparr>"

definition example_boot :: "u8 boot_env" where
  "example_boot = \<lparr>bt_build = (\<lambda>t q. Inr 42), bt_listen = (\<lambda>a. Inr (length a)), bt_dial = (\<lambda>p as. None), bt_accept = True\<rparr>"

definition example_init :: "string option \<Rightarrow> init_env" where
  "example_init var = \<lparr>ie_runtime = True, ie_eventfd = True, ie_relay_var = var, ie_host = Some (V4 5), ie_memory = Map.empty\<rparr>"

definition boot_events :: "u8 init_event list" where
  "boot_events = [NewListenAddr [Ip4 0, Tcp 1234] 2, InitEstablished 7, InitOther,
     NewListenAddr [Ip4 9, Tcp 4001, P2p 7, P2pCircuit, P2p 42] 4]"

lemma boot_config: "parse_transport_config ''tcp,relay'' =
    \<lparr>tc_tcp = True, tc_quic = False, tc_relay = True, tc_priority = TcpKind\<rparr>"
proof -
  have "trim ''tcp'' = ''tcp''" "trim ''relay'' = ''relay''"
    by (rule trim_visible; simp add: visible_def)+
  then show ?thesis by (simp add: parse_transport_config_def scan_part_def)
qed

lemma boot_binds: "bind_addrs boot_lib True \<lparr>tc_tcp = True, tc_quic = False, tc_relay = True, tc_priority = TcpKind\<rparr> =
    Some [[Ip4 0, Tcp 0]]"
  by (simp add: bind_addrs_def boot_lib_def)

lemma boot_relay: "ma_parse boot_lib ''relay'' = Some [Ip4 9, Tcp 4001, P2p 7]"
  by (simp add: boot_lib_def)

lemma relay_start:
  "case na_libp2p_initialize boot_lib show_byte example_boot (example_init (Some ''relay'')) (Some ''tcp,relay'') True boot_events of
     Returned r (Some (s, spd)) n \<Rightarrow> relay_addr (na s) \<noteq> None | _ \<Rightarrow> False"
  by (simp add: na_libp2p_initialize_def boot_config boot_binds boot_relay example_init_def example_boot_def boot_events_def
      read_relay_addr_def spawn_swarm_task_def init_relay_def extract_peer_id_from_multiaddr_def is_circuit_def Let_def
      resolve_self_multiaddr_def endpoint_def class_state_def)

theorem initialize_returned_witness:
  "\<exists>s spd. na_libp2p_initialize boot_lib show_byte example_boot (example_init (Some ''relay'')) (Some ''tcp,relay'') True
       boot_events = Returned NA_SUCCESS (Some (s, spd)) 1 \<and>
     sys_inv s \<and> running (sys_loop s) \<and> is_circuit (last (sp_resolved spd))"
proof -
  from relay_start obtain r s spd n where
    run: "na_libp2p_initialize boot_lib show_byte example_boot (example_init (Some ''relay'')) (Some ''tcp,relay'') True
      boot_events = Returned r (Some (s, spd)) n" and "relay_addr (na s) \<noteq> None"
    by (auto split: init_result.splits option.splits prod.splits)
  with initialize_returned [OF run refl] show ?thesis by auto
qed

theorem initialize_starts_witness:
  "\<exists>s spd. na_libp2p_initialize boot_lib show_byte example_boot (example_init None) (Some ''tcp,relay'') True
       [NewListenAddr [Ip4 0, Tcp 1234] 2] = Returned NA_SUCCESS (Some (s, spd)) 1 \<and>
    fresh_system s \<and> peer_id (self_addr (na s)) = 42 \<and>
    (\<forall>cf as. keeps_contract cf as s \<longrightarrow> play cf as s \<noteq> None)"
  by (rule initialize_starts [OF _ _ _ refl, where addrs = "[[Ip4 0, Tcp 0]]" and ids = "[2]"])
    (simp_all add: boot_config boot_binds example_init_def example_boot_def read_relay_addr_def)

theorem relay_without_peer_panics_witness:
  "na_libp2p_initialize boot_lib show_byte example_boot (example_init (Some ''anonymous'')) (Some ''tcp,relay'') True
     [NewListenAddr [Ip4 0, Tcp 1234] 2] = Aborted ''MERCURY_RELAY_ADDR must contain /p2p/<peer_id>''"
  by (rule relay_without_peer_panics [OF _ _ refl, where addrs = "[[Ip4 0, Tcp 0]]" and ids = "[2]" and peer = 42
        and relay_ma = "[Ip4 9, Tcp 4001]"])
    (simp_all add: boot_config boot_binds example_init_def example_boot_def read_relay_addr_def, simp add: boot_lib_def)

lemma stash_state_inv: "na_inv stash_state"
  by (simp add: na_inv_def heap_ok_def posted_all_def owned_ok_def handles_ok_def na_parts owned_addrs_def
      channel_sources_def filter_addrs_def recv_ops_def stash_state_def stash_addrs_def example_queue_defs)

theorem finalize_returns_witness:
  "\<exists>s'. na_libp2p_finalize example_config [(example_env, DeadlineElapsed), (example_env, Cmd Shutdown)]
      (Some (set_na stash_state example_system)) = Some (NA_SUCCESS, Some s') \<and>
    \<not> running (sys_loop s') \<and> tasks (sys_loop s') = [] \<and> waiting_ops (na s') = [] \<and>
    {5, 6} \<subseteq> dom (addr_box (na s')) \<and> owned_addrs (na s') = []"
proof -
  have "na_inv (na (set_na stash_state example_system))" by (simp add: set_na_def stash_state_inv)
  from finalize_returns [OF this, of "[(example_env, DeadlineElapsed), (example_env, Cmd Shutdown)]" example_config]
  show ?thesis
    by (simp add: set_na_def stash_state_def taken_commands_def owned_addrs_def stash_addrs_def channel_sources_def
        operation_queues_new_def)
qed

end
