(* ===== verification/Relay_Server.thy ===== *)
theory Relay_Server
  imports Addressing
begin

text \<open>
  The relay server, a program of its own (\<^verbatim>\<open>src/relay-server/src/main.rs\<close>): its command line,
  the address file, and the loop over the events of its swarm. The swarm and the derivation of
  keys are libp2p's: what they answer is an argument.
\<close>

section \<open>Outcomes\<close>

text \<open>A result, an exit with a code, an error returned by \<^verbatim>\<open>main\<close>, or a panic.\<close>

datatype 'a run = Done 'a | Exit nat | MainError string | Panics string

fun bind_run :: "'a run \<Rightarrow> ('a \<Rightarrow> 'b run) \<Rightarrow> 'b run" where
  "bind_run (Done a) f = f a"
| "bind_run (Exit n) f = Exit n"
| "bind_run (MainError e) f = MainError e"
| "bind_run (Panics e) f = Panics e"

section \<open>The command line\<close>

text \<open>
  \<^verbatim>\<open>str::parse\<close> for an unsigned integer below a bound: an optional plus sign and decimal
  digits, with an error on overflow.
\<close>

definition digit_value :: "char \<Rightarrow> nat option" where
  "digit_value c = (let n = of_char c in if 48 \<le> n \<and> n \<le> 57 then Some (n - 48) else None)"

fun parse_digits :: "nat \<Rightarrow> nat \<Rightarrow> string \<Rightarrow> nat option" where
  "parse_digits bound acc [] = Some acc"
| "parse_digits bound acc (c # cs) =
     (case digit_value c of
        None \<Rightarrow> None
      | Some d \<Rightarrow> let v = acc * 10 + d in if v < bound then parse_digits bound v cs else None)"

definition parse_uint :: "nat \<Rightarrow> string \<Rightarrow> nat option" where
  "parse_uint bound s =
     (case s of
        [] \<Rightarrow> None
      | c # cs \<Rightarrow> if c = CHR ''+'' \<and> cs \<noteq> [] then parse_digits bound 0 cs else parse_digits bound 0 s)"

text \<open>The loop over the arguments after the program name.\<close>

fun parse_loop ::
  "string list \<Rightarrow> u16 \<Rightarrow> u8 option \<Rightarrow> string option \<Rightarrow> (u16 \<times> u8 option \<times> string option) run" where
  "parse_loop [] port seed addr_file = Done (port, seed, addr_file)"
| "parse_loop (arg # args) port seed addr_file =
     (if arg = ''-h'' \<or> arg = ''--help'' then Exit 0
      else if arg = ''--port'' then
        (case args of
           [] \<Rightarrow> Panics ''--port requires a value''
         | v # rest \<Rightarrow>
             (case parse_uint (2 ^ 16) v of
                None \<Rightarrow> Panics ''invalid port''
              | Some n \<Rightarrow> parse_loop rest (of_nat n) seed addr_file))
      else if arg = ''--secret-key-seed'' then
        (case args of
           [] \<Rightarrow> Panics ''--secret-key-seed requires a value''
         | v # rest \<Rightarrow>
             (case parse_uint (2 ^ 8) v of
                None \<Rightarrow> Panics ''invalid seed''
              | Some n \<Rightarrow> parse_loop rest port (Some (of_nat n)) addr_file))
      else if arg = ''--addr-file'' then
        (case args of
           [] \<Rightarrow> Panics ''--addr-file requires a value''
         | v # rest \<Rightarrow> parse_loop rest port seed (Some v))
      else Exit 1)"

definition parse_args :: "string list \<Rightarrow> (u16 \<times> u8 \<times> string) run" where
  "parse_args args =
     bind_run (parse_loop (drop 1 args) 0 None None) (\<lambda>(port, seed, addr_file).
       case (seed, addr_file) of
         (Some seed, Some addr_file) \<Rightarrow> Done (port, seed, addr_file)
       | _ \<Rightarrow> Exit 1)"

section \<open>The server\<close>

definition LOCALHOST :: u32 where
  "LOCALHOST = 0x7F000001"

text \<open>The results of binding a UDP socket, connecting it and asking for its local address.\<close>

definition relay_hostname_ip :: "unit option \<Rightarrow> unit option \<Rightarrow> ip_addr option \<Rightarrow> u32" where
  "relay_hostname_ip bound connected local_addr =
     (case Option.bind bound (\<lambda>_. Option.bind connected (\<lambda>_. local_addr)) of
        Some (V4 v4) \<Rightarrow> v4
      | _ \<Rightarrow> LOCALHOST)"

text \<open>The secret key; \<^verbatim>\<open>ed25519_from_bytes\<close> is the argument \<open>peer_of_key\<close> below.\<close>

definition generate_ed25519 :: "u8 \<Rightarrow> bytes" where
  "generate_ed25519 seed = (replicate 32 0)[0 := seed]"

definition relay_resolve :: "u32 \<Rightarrow> 'pid multiaddr \<Rightarrow> 'pid multiaddr" where
  "relay_resolve host address =
     map (\<lambda>p. case p of Ip4 ip \<Rightarrow> if ip = 0 then Ip4 host else p | _ \<Rightarrow> p) address"

definition is_loopback :: "'pid multiaddr \<Rightarrow> bool" where
  "is_loopback ma \<longleftrightarrow> (\<exists>p\<in>set ma. case p of Ip4 ip \<Rightarrow> drop_bit 24 ip = 127 | _ \<Rightarrow> False)"

definition full_addr :: "'pid libp2p \<Rightarrow> 'pid \<Rightarrow> 'pid multiaddr \<Rightarrow> string" where
  "full_addr L peer resolved = ma_to_string L resolved @ ''/p2p/'' @ pid_to_string L peer"

text \<open>
  The state of the loop: the flag, the content of the address file, the external addresses of
  the swarm, and whether the loop runs.
\<close>

record 'pid relay_state =
  rs_written :: bool
  rs_file :: "string option"
  rs_external :: "'pid multiaddr list"
  rs_running :: bool

definition relay_init :: "'pid relay_state" where
  "relay_init = \<lparr>rs_written = False, rs_file = None, rs_external = [], rs_running = True\<rparr>"

text \<open>What one turn of \<^verbatim>\<open>tokio::select!\<close> takes.\<close>

datatype 'pid relay_input =
  RelayListenAddr "'pid multiaddr" | IdentifyReceived "'pid multiaddr" | RelayEvent | RelayOther | RelayEnded | CtrlC

fun relay_turn ::
  "'pid libp2p \<Rightarrow> u32 \<Rightarrow> (string \<Rightarrow> bool) \<Rightarrow> 'pid \<Rightarrow> 'pid relay_input \<Rightarrow> 'pid relay_state \<Rightarrow> 'pid relay_state run" where
  "relay_turn L host can_write peer (RelayListenAddr address) st =
     (let resolved = relay_resolve host address;
          loopback = is_loopback resolved;
          st = st\<lparr>rs_external := rs_external st @ [resolved]\<rparr>;
          full = full_addr L peer resolved in
      if \<not> rs_written st \<or> \<not> loopback then
        (if \<not> can_write full then Panics ''failed to write addr file''
         else Done (st\<lparr>rs_file := Some full, rs_written := (if \<not> loopback then True else rs_written st)\<rparr>))
      else Done st)"
| "relay_turn L host can_write peer (IdentifyReceived observed_addr) st =
     Done (st\<lparr>rs_external := rs_external st @ [observed_addr]\<rparr>)"
| "relay_turn L host can_write peer RelayEvent st = Done st"
| "relay_turn L host can_write peer RelayOther st = Done st"
| "relay_turn L host can_write peer RelayEnded st = Panics ''swarm stream ended''"
| "relay_turn L host can_write peer CtrlC st = Done (st\<lparr>rs_running := False\<rparr>)"

text \<open>The loop on the turns it takes; it may still run at their end.\<close>

fun relay_loop ::
  "'pid libp2p \<Rightarrow> u32 \<Rightarrow> (string \<Rightarrow> bool) \<Rightarrow> 'pid \<Rightarrow> 'pid relay_input list \<Rightarrow> 'pid relay_state \<Rightarrow> 'pid relay_state run" where
  "relay_loop L host can_write peer [] st = Done st"
| "relay_loop L host can_write peer (i # is) st =
     (if rs_running st then bind_run (relay_turn L host can_write peer i st) (relay_loop L host can_write peer is)
      else Done st)"

text \<open>
  \<open>build_error\<close> and \<open>listen_error\<close> are the swarm's answers; \<open>can_write\<close> says whether a file can be
  written with a text.
\<close>

definition relay_main ::
  "'pid libp2p \<Rightarrow> (bytes \<Rightarrow> 'pid) \<Rightarrow> u32 \<Rightarrow> string option \<Rightarrow> ('pid multiaddr \<Rightarrow> string option)
     \<Rightarrow> (string \<Rightarrow> string \<Rightarrow> bool) \<Rightarrow> string list \<Rightarrow> 'pid relay_input list \<Rightarrow> 'pid relay_state run" where
  "relay_main L peer_of_key host build_error listen_error can_write args is =
     bind_run (parse_args args) (\<lambda>(port, seed, addr_file).
       let peer = peer_of_key (generate_ed25519 seed) in
       case build_error of
         Some e \<Rightarrow> MainError e
       | None \<Rightarrow>
           (case listen_error [Ip4 0, Tcp port] of
              Some e \<Rightarrow> MainError e
            | None \<Rightarrow> relay_loop L host (can_write addr_file) peer is relay_init))"

section \<open>The command line: lemmas\<close>

text \<open>The decimal text of a number.\<close>

definition digit_char :: "nat \<Rightarrow> char" where
  "digit_char d = char_of (48 + d)"

fun show_nat :: "nat \<Rightarrow> string" where
  "show_nat n = (if n < 10 then [digit_char n] else show_nat (n div 10) @ [digit_char (n mod 10)])"

declare show_nat.simps [simp del]

lemma digit_value_char: "d < 10 \<Longrightarrow> digit_value (digit_char d) = Some d"
  by (simp add: digit_value_def digit_char_def Let_def)

lemma parse_digits_append:
  "parse_digits b acc (xs @ ys) = Option.bind (parse_digits b acc xs) (\<lambda>v. parse_digits b v ys)"
  by (induction xs arbitrary: acc) (simp_all add: Let_def split: option.split)

lemma parse_digits_show: "n < b \<Longrightarrow> parse_digits b 0 (show_nat n) = Some n"
proof (induction n rule: show_nat.induct)
  case (1 n)
  show ?case
  proof (cases "n < 10")
    case True
    then show ?thesis using 1 by (simp add: show_nat.simps [of n] digit_value_char)
  next
    case False
    with 1 have "parse_digits b 0 (show_nat (n div 10)) = Some (n div 10)" by simp
    with False 1 show ?thesis
      by (simp add: show_nat.simps [of n] parse_digits_append digit_value_char Let_def)
  qed
qed

lemma show_nat_Cons: "\<exists>d cs. d < 10 \<and> show_nat n = digit_char d # cs"
proof (induction n rule: show_nat.induct)
  case (1 n)
  then show ?case by (cases "n < 10") (auto simp: show_nat.simps [of n])
qed

lemma parse_uint_show: "n < b \<Longrightarrow> parse_uint b (show_nat n) = Some n"
proof -
  assume n: "n < b"
  from show_nat_Cons obtain d cs where d: "d < 10" and eq: "show_nat n = digit_char d # cs" by blast
  have "digit_value (CHR ''+'') = None" by (simp add: digit_value_def)
  with digit_value_char [OF d] have "digit_char d \<noteq> CHR ''+''" by auto
  with parse_digits_show [OF n] show ?thesis by (simp add: parse_uint_def eq)
qed

text \<open>A number that does not fit is rejected.\<close>

lemma parse_digits_bound: "parse_digits b acc s = Some n \<Longrightarrow> acc < b \<Longrightarrow> n < b"
  by (induction s arbitrary: acc) (auto simp: Let_def split: option.splits if_splits)

text \<open>The options of a command line, and how they are written.\<close>

datatype relay_option = PortOption u16 | SeedOption u8 | FileOption string

fun written :: "relay_option \<Rightarrow> string list" where
  "written (PortOption p) = [''--port'', show_nat (unat p)]"
| "written (SeedOption s) = [''--secret-key-seed'', show_nat (unat s)]"
| "written (FileOption f) = [''--addr-file'', f]"

fun chosen :: "relay_option \<Rightarrow> u16 \<times> u8 option \<times> string option \<Rightarrow> u16 \<times> u8 option \<times> string option" where
  "chosen (PortOption p) (port, seed, path) = (p, seed, path)"
| "chosen (SeedOption s) (port, seed, path) = (port, Some s, path)"
| "chosen (FileOption f) (port, seed, path) = (port, seed, Some f)"

lemma parse_loop_written:
  "parse_loop (concat (map written opts)) port seed path = Done (fold chosen opts (port, seed, path))"
proof (induction opts arbitrary: port seed path)
  case (Cons x opts)
  have "unat p < 2 ^ 16" for p :: u16 using unsigned_less [of p] by simp
  moreover have "unat s < 2 ^ 8" for s :: u8 using unsigned_less [of s] by simp
  ultimately show ?case using Cons by (cases x) (simp_all add: parse_uint_show)
qed simp

text \<open>C38: the command line is read as it was written: whatever options are given, in whatever order
  and however often, the last of each kind counts, the port is 0 when it is not given, and without
  a seed or a file the program exits with code 1. Numbers of the full range of a port and of a seed
  byte are read back from their decimal text.\<close>

theorem parse_args_roundtrip:
  "parse_args (program # concat (map written opts)) =
     (case fold chosen opts (0, None, None) of
        (port, Some seed, Some path) \<Rightarrow> Done (port, seed, path)
      | _ \<Rightarrow> Exit 1)"
  by (simp add: parse_args_def parse_loop_written split: prod.split option.split)

section \<open>The address file: lemmas\<close>

text \<open>The listen addresses that the turns before the interrupt report, resolved.\<close>

fun listen_reports :: "u32 \<Rightarrow> 'pid relay_input list \<Rightarrow> 'pid multiaddr list" where
  "listen_reports host [] = []"
| "listen_reports host (RelayListenAddr a # is) = relay_resolve host a # listen_reports host is"
| "listen_reports host (CtrlC # is) = []"
| "listen_reports host (_ # is) = listen_reports host is"

definition last_option :: "'a list \<Rightarrow> 'a option" where
  "last_option xs = (if xs = [] then None else Some (last xs))"

text \<open>The address that the file holds after a series of reports.\<close>

definition preferred :: "'pid multiaddr list \<Rightarrow> 'pid multiaddr option" where
  "preferred as =
     (case last_option (filter (\<lambda>a. \<not> is_loopback a) as) of Some a \<Rightarrow> Some a | None \<Rightarrow> last_option as)"

lemma preferred_snoc:
  "preferred (as @ [a]) =
     (if (\<exists>b\<in>set as. \<not> is_loopback b) \<and> is_loopback a then preferred as else Some a)"
  by (auto simp: preferred_def last_option_def filter_empty_conv)

definition file_ok :: "'pid libp2p \<Rightarrow> 'pid \<Rightarrow> 'pid multiaddr list \<Rightarrow> 'pid relay_state \<Rightarrow> bool" where
  "file_ok L peer as st \<longleftrightarrow>
     rs_written st = (\<exists>a\<in>set as. \<not> is_loopback a) \<and>
     rs_file st = map_option (full_addr L peer) (preferred as)"

lemma relay_loop_stopped: "\<not> rs_running st \<Longrightarrow> relay_loop L host cw peer is st = Done st"
  by (cases "is") simp_all

lemma relay_loop_file:
  assumes "\<forall>t. can_write t" and "RelayEnded \<notin> set is" and "file_ok L peer as st" and "rs_running st"
  shows "\<exists>st'. relay_loop L host can_write peer is st = Done st' \<and> file_ok L peer (as @ listen_reports host is) st' \<and>
    rs_running st' = (CtrlC \<notin> set is)"
  using assms(2-4)
proof (induction "is" arbitrary: as st)
  case Nil
  then show ?case by simp
next
  case (Cons i "is")
  show ?case
  proof (cases i)
    case (RelayListenAddr a)
    define st1 where "st1 = (let resolved = relay_resolve host a; loopback = is_loopback resolved in
      if \<not> rs_written st \<or> \<not> loopback
      then st\<lparr>rs_external := rs_external st @ [resolved], rs_file := Some (full_addr L peer resolved),
              rs_written := (if \<not> loopback then True else rs_written st)\<rparr>
      else st\<lparr>rs_external := rs_external st @ [resolved]\<rparr>)"
    have turn: "relay_turn L host can_write peer i st = Done st1"
      using assms(1) by (simp add: RelayListenAddr st1_def Let_def)
    have "file_ok L peer (as @ [relay_resolve host a]) st1" "rs_running st1"
      using Cons.prems by (auto simp: st1_def file_ok_def preferred_snoc Let_def)
    from Cons.IH [OF _ this] Cons.prems turn show ?thesis by (auto simp: RelayListenAddr)
  next
    case CtrlC
    then show ?thesis using Cons.prems by (simp add: relay_loop_stopped file_ok_def)
  next
    case (IdentifyReceived a)
    then show ?thesis using Cons.prems Cons.IH [of as "st\<lparr>rs_external := rs_external st @ [a]\<rparr>"]
      by (auto simp: file_ok_def)
  qed (use Cons in auto)
qed

text \<open>C39: the address file: as long as the file can be written and the swarm lives, the loop goes on until
  the interrupt, and at every moment the file holds the full address of the last listen address
  that is not a loopback address, or, when there is none, of the last listen address; it is absent
  before the first. (The documentation speaks of the first address.)\<close>

theorem relay_file_preferred:
  assumes "\<forall>t. can_write t" and "RelayEnded \<notin> set is"
  shows "\<exists>st. relay_loop L host can_write peer is relay_init = Done st \<and>
    rs_file st = map_option (full_addr L peer) (preferred (listen_reports host is)) \<and>
    (rs_running st \<longleftrightarrow> CtrlC \<notin> set is)"
proof -
  have "file_ok L peer [] relay_init" "rs_running relay_init"
    by (simp_all add: file_ok_def relay_init_def preferred_def last_option_def)
  from relay_loop_file [OF assms this, of host] show ?thesis by (auto simp: file_ok_def)
qed

theorem relay_file_preferred_witness:
  "\<exists>st. relay_loop example_lib 9 (\<lambda>t. True) 7
      [RelayListenAddr [Ip4 0, Tcp 1], RelayListenAddr [Ip4 LOCALHOST, Tcp 1], RelayListenAddr [Ip4 5, Tcp 1], RelayOther]
      relay_init = Done st \<and>
    rs_file st = Some (full_addr example_lib 7 [Ip4 5, Tcp 1]) \<and> rs_running st"
proof -
  have "preferred (listen_reports 9
      [RelayListenAddr [Ip4 0, Tcp 1], RelayListenAddr [Ip4 LOCALHOST, Tcp 1], RelayListenAddr [Ip4 5, Tcp 1 :: u8 protocol], RelayOther])
    = Some [Ip4 5, Tcp 1]"
    by code_simp
  with relay_file_preferred [of "\<lambda>t. True" "[RelayListenAddr [Ip4 0, Tcp 1], RelayListenAddr [Ip4 LOCALHOST, Tcp 1],
      RelayListenAddr [Ip4 5, Tcp 1], RelayOther]" example_lib 9 7]
  show ?thesis by simp
qed

end
