(* ===== verification/Spec2Isabelle.thy ===== *)
theory Spec2Isabelle
  imports Ordering Completion Startup Relay_Server
begin

text \<open>
  A verification development for the Mercury NA plugin over libp2p and its relay server.

  \<^bold>\<open>The program.\<close> A shared library implements the network abstraction (NA) of Mercury on top of
  the Rust library libp2p. Mercury's thread calls the plugin functions of \<^verbatim>\<open>src/src/plugin.rs\<close>;
  they put commands in a channel to the runtime thread and take completions out of another. The
  runtime (\<^verbatim>\<open>src/src/runtime.rs\<close>) runs an event loop over commands, swarm events and deadlines,
  one writer task per peer, tasks that wait for the result of a send, and a handler per incoming
  stream. Both sides share the queues of posted receives, stashed messages and pending gets
  (\<^verbatim>\<open>src/src/state.rs\<close>). Messages have the format of \<^verbatim>\<open>src/src/protocol.rs\<close>. The relay server
  (\<^verbatim>\<open>src/relay-server/src/main.rs\<close>) is a program of its own.

  \<^bold>\<open>The model.\<close> Every function of the source is a HOL function with the same name where possible.
  State is passed explicitly; \<^const>\<open>None\<close> is undefined behaviour (a dangling pointer, a second free,
  an access outside a buffer), errors of Rust are values. libp2p, Mercury, the operating system and
  the clock are arguments: the codecs and text forms of addresses are the record \<open>libp2p\<close>, the
  answers of the swarm are \<open>swarm_env\<close> and \<open>boot_env\<close>, what it yields are lists of events. Words
  have the width of the source's integers.

  \<^item> \<^verbatim>\<open>Prelude\<close>: lists, words, text, the codec interface. \<^verbatim>\<open>Byte_Memory\<close>: memory as a partial map of
    bytes, with an interface for loads and stores.
  \<^item> \<^verbatim>\<open>Wire_Protocol\<close>: \<^verbatim>\<open>protocol.rs\<close> in full. Reading inverts writing, a stream of frames is read as
    those frames; what happens to a payload of 2^32 bytes or more.
  \<^item> \<^verbatim>\<open>Plugin_State\<close>: the structs of \<^verbatim>\<open>state.rs\<close>, commands and completions, over an explicit heap.
  \<^item> \<^verbatim>\<open>Addressing\<close>: \<^verbatim>\<open>get_protocol_info\<close>, \<^verbatim>\<open>check_protocol\<close>, \<^verbatim>\<open>parse_transport_config\<close>, resolution,
    \<^verbatim>\<open>addr_*\<close> without serialization. Text forms are read back; lookup through a relay; the
    priority transport, the prefix and the buffer of \<^verbatim>\<open>addr_to_string\<close>.
  \<^item> \<^verbatim>\<open>Serialization\<close>: \<^verbatim>\<open>addr_serialize\<close>, \<^verbatim>\<open>mem_handle_serialize\<close> and their inverses: round trips, and
    definedness on arbitrary bytes.
  \<^item> \<^verbatim>\<open>Matching\<close>: the first-come first-served discipline of receives and messages as a specification
    with its locale. \<^verbatim>\<open>Messaging\<close>: sends, receives, incoming messages, poll, cancel; each refines a
    step of the discipline.
  \<^item> \<^verbatim>\<open>Rma\<close>: memory handles, put, get and the handlers of their messages, which stay inside the
    registered buffers.
  \<^item> \<^verbatim>\<open>Peer_Sender\<close>: \<^verbatim>\<open>PeerSenderPool\<close>, \<^verbatim>\<open>peer_writer_task\<close>, \<^verbatim>\<open>send_one_message\<close> with its retries.
  \<^item> \<^verbatim>\<open>Swarm_Loop\<close>: the event loop of \<^verbatim>\<open>spawn_swarm_task\<close>, every arm of its \<^verbatim>\<open>select!\<close>. Relay
    requests are settled at most once and by their deadline.
  \<^item> \<^verbatim>\<open>Incoming\<close>: \<^verbatim>\<open>handle_incoming_stream\<close> and the dispatch of messages, equal to reading all frames
    and handling them in order.
  \<^item> \<^verbatim>\<open>Ownership\<close>: the invariant of the heap (who owns which box) and its preservation by every
    operation. \<^verbatim>\<open>System\<close>: one endpoint as a whole, the steps of the client, of Mercury and of the
    runtime in any order. Under the contract of the client every step is defined, and operations
    are neither lost nor completed twice.
  \<^item> \<^verbatim>\<open>Ordering\<close>: the histories of \<^verbatim>\<open>System\<close> seen by the matching discipline: messages are delivered
    first come, first served.
  \<^item> \<^verbatim>\<open>Completion\<close>: the single accesses of completion channel and event descriptor, interleaved: no
    wake-up is lost.
  \<^item> \<^verbatim>\<open>Startup\<close>: \<^verbatim>\<open>initialize\<close>, the start of \<^verbatim>\<open>spawn_swarm_task\<close>, \<^verbatim>\<open>finalize\<close>, contexts and sizes. The
    start goes through, establishes the invariant of \<^verbatim>\<open>System\<close> and how it fails; the end.
  \<^item> \<^verbatim>\<open>Relay_Server\<close>: the command line, the address file and the loop of the relay server.
  \<^item> This theory: messages, puts and gets from one endpoint to another through the wire format, and
    the relay server's address file as the configuration of an endpoint.

  \<^bold>\<open>Bounds and termination.\<close> There is no fuel. Loops over data are structurally recursive or have a
  measure (the bytes left in a stream, the text left to trim). Loops over events recurse over the
  list of the events that occur; a list that ends is a wait that goes on (\<open>Blocked\<close>, \<open>Waiting\<close>, a
  loop still running), and theorems say which events end the wait.

  \<^bold>\<open>The contract.\<close> The client creates an operation before it uses it, does not post one that is in
  flight, frees addresses and handles it owns, and keeps buffers allocated while they are in use. The
  one assumption on the runtime is that the request of a get does not fail; what happens when it does
  is a theorem of \<^verbatim>\<open>System\<close>.

  \<^bold>\<open>Not modelled.\<close> The table of operations in \<^verbatim>\<open>src/src/lib.rs\<close> (a constant table of the functions
  that are modelled), \<^verbatim>\<open>src/build.rs\<close> and the generated bindings (not part of the program's
  behaviour), \<^verbatim>\<open>poll_get_fd\<close> and \<^verbatim>\<open>cleanup\<close> (they return a number and nothing), log output and usage
  texts, the tests, and the internals of libp2p, tokio and Mercury. Locks are not modelled as such:
  a step of \<^verbatim>\<open>System\<close> is what the code does while it holds the lock of the queues; the two objects
  shared without it, channel and descriptor, are in \<^verbatim>\<open>Completion\<close>.
\<close>

section \<open>From one endpoint to another\<close>

text \<open>
  What a command puts on the wire, with the peer it goes to, and a stream that carries some
  bytes and then ends. The bytes arrive as they were written: that is the service of libp2p's
  streams.
\<close>

definition wire_form :: "'pid libp2p \<Rightarrow> 'pid command \<Rightarrow> ('pid \<times> bytes) option" where
  "wire_form L c =
     map_option (\<lambda>(dest, h, payload, op, k). (dest, frame (pid_to_bytes L) (h, payload))) (command_message c)"

definition stream_of :: "bytes \<Rightarrow> rstream" where
  "stream_of bs = \<lparr>rs_data = bs, rs_end = UnexpectedEof\<rparr>"

definition pid_codec :: "'pid libp2p \<Rightarrow> 'pid \<Rightarrow> bool" where
  "pid_codec L p \<longleftrightarrow> peer_codec (pid_to_bytes L) (pid_from_bytes L) p"

text \<open>A stream with one message is the dispatch of that message.\<close>

lemma read_messages_one:
  assumes "pid_codec L (source_peer_id h)" and "unat (payload_size h) = length payload"
  shows "read_messages (pid_from_bytes L) (stream_of (frame (pid_to_bytes L) (h, payload)))
    = ([(h, payload)], UnexpectedEof)"
  using read_messages_whole [of "[(h, payload)]" "pid_to_bytes L" "pid_from_bytes L" UnexpectedEof] assms
  by (simp add: stream_of_def well_formed_msg_def pid_codec_def)

lemma stream_one:
  assumes "pid_codec L (source_peer_id h)" and "unat (payload_size h) = length payload"
    and "dispatch outcome (h, payload) st = Some (Inr (), st')"
  shows "handle_incoming_stream (pid_from_bytes L) outcome (stream_of (frame (pid_to_bytes L) (h, payload))) st
    = Some (Inr (), st')"
  by (simp add: stream_eq_dispatch_all read_messages_one [OF assms(1,2)] assms(3) end_of_stream_def)

lemma payload_size_small: "length payload < 2 ^ 32 \<Longrightarrow> unat (of_nat (length payload) :: u32) = length payload"
  by (simp add: unat_of_nat)

lemma message_payload_length:
  assumes "message_payload buf n w = Some payload" and "n \<le> MAX_MSG_SIZE"
  shows "length payload < 2 ^ 32"
proof -
  have "unat n \<le> 65536" using assms(2) by (simp add: MAX_MSG_SIZE_def word_le_nat_alt)
  moreover have "length payload \<le> unat n"
    using assms(1) by (auto simp: message_payload_def copy_from_def dest: mem.load_length split: if_splits)
  ultimately show ?thesis by simp
qed

text \<open>C7: an unexpected message gets through: a send of at most the advertised maximum size that is
  accepted puts one command in the channel; its bytes, read by the peer it is addressed to, are
  handled without an error, and the peer's queue of unexpected messages makes exactly the step of
  the matching discipline for a message with the sender's peer id, the tag and the bytes of the
  sender's buffer.\<close>

theorem send_unexpected_delivered:
  assumes "addr_box w dest = Some d" and "op_box w op = Some opv" and "message_payload buf n w = Some payload"
    and "n \<le> MAX_MSG_SIZE" and "\<not> cmd_closed w" and "pid_codec L (peer_id (self_addr w))"
    and "queues_ok (in_na st)" and "addr_box (in_na st) (next_box (in_na st)) = None"
  shows "\<exists>w' c bs st'. na_libp2p_msg_send_unexpected cx cb arg buf n dest t op w = Some (NA_SUCCESS, w') \<and>
    cmd_tx w' = cmd_tx w @ [c] \<and> wire_form L c = Some (peer_id d, bs) \<and>
    handle_incoming_stream (pid_from_bytes L) outcome (stream_of bs) st = Some (Inr (), st') \<and>
    expected_queue (in_na st') = expected_queue (in_na st) \<and>
    match_step unexpected_matches (Arrive (peer_id (self_addr w), t, payload)) (unexpected_queue (in_na st))
      = (handed_unexpected (peer_id (self_addr w), t, payload) (in_na st), unexpected_queue (in_na st'))"
proof -
  define h :: "'a wire_header" where "h = \<lparr>msg_type = Unexpected, tag = t, payload_size = of_nat (length payload),
    source_peer_id = peer_id (self_addr w), handle_id = 0, offset = 0, rma_length = 0,
    local_handle_id = 0, local_offset = 0\<rparr>"
  have h: "source_peer_id h = peer_id (self_addr w)" "tag h = t" "msg_type h = Unexpected"
    "unat (payload_size h) = length payload"
    using payload_size_small [OF message_payload_length [OF assms(3,4)]] by (simp_all add: h_def)
  obtain wr where run: "handle_incoming_msg h payload False (in_na st) = Some wr"
    using handle_incoming_eq [OF assms(7,8)] by blast
  then have "dispatch outcome (h, payload) st = Some (Inr (), st\<lparr>in_na := wr\<rparr>)"
    by (simp add: dispatch_def h(3))
  from stream_one [OF _ h(4) this, of L] assms(6) have
    stream: "handle_incoming_stream (pid_from_bytes L) outcome (stream_of (frame (pid_to_bytes L) (h, payload))) st
      = Some (Inr (), st\<lparr>in_na := wr\<rparr>)" by (simp add: h(1))
  from incoming_unexpected_queues [OF assms(7,8) run] h stream show ?thesis
    using assms(1-3,5)
    by (simp add: na_libp2p_msg_send_unexpected_def send_cmd_def put_op_def wire_form_def Let_def flip: h_def)
qed

text \<open>C8: the same for an expected message and the queue of expected messages.\<close>

theorem send_expected_delivered:
  assumes "addr_box w dest = Some d" and "op_box w op = Some opv" and "message_payload buf n w = Some payload"
    and "n \<le> MAX_MSG_SIZE" and "\<not> cmd_closed w" and "pid_codec L (peer_id (self_addr w))"
    and "queues_ok (in_na st)" and "addr_box (in_na st) (next_box (in_na st)) = None"
  shows "\<exists>w' c bs st'. na_libp2p_msg_send_expected cx cb arg buf n dest t op w = Some (NA_SUCCESS, w') \<and>
    cmd_tx w' = cmd_tx w @ [c] \<and> wire_form L c = Some (peer_id d, bs) \<and>
    handle_incoming_stream (pid_from_bytes L) outcome (stream_of bs) st = Some (Inr (), st') \<and>
    unexpected_queue (in_na st') = unexpected_queue (in_na st) \<and>
    match_step expected_matches (Arrive (peer_id (self_addr w), t, payload)) (expected_queue (in_na st))
      = (handed_expected (peer_id (self_addr w), t, payload) (in_na st), expected_queue (in_na st'))"
proof -
  define h :: "'a wire_header" where "h = \<lparr>msg_type = Expected, tag = t, payload_size = of_nat (length payload),
    source_peer_id = peer_id (self_addr w), handle_id = 0, offset = 0, rma_length = 0,
    local_handle_id = 0, local_offset = 0\<rparr>"
  have h: "source_peer_id h = peer_id (self_addr w)" "tag h = t" "msg_type h = Expected"
    "unat (payload_size h) = length payload"
    using payload_size_small [OF message_payload_length [OF assms(3,4)]] by (simp_all add: h_def)
  obtain wr where run: "handle_incoming_msg h payload True (in_na st) = Some wr"
    using handle_incoming_eq [OF assms(7,8)] by blast
  then have "dispatch outcome (h, payload) st = Some (Inr (), st\<lparr>in_na := wr\<rparr>)"
    by (simp add: dispatch_def h(3))
  from stream_one [OF _ h(4) this, of L] assms(6) have
    stream: "handle_incoming_stream (pid_from_bytes L) outcome (stream_of (frame (pid_to_bytes L) (h, payload))) st
      = Some (Inr (), st\<lparr>in_na := wr\<rparr>)" by (simp add: h(1))
  from incoming_expected_queues [OF assms(7,8) run] h stream show ?thesis
    using assms(1-3,5)
    by (simp add: na_libp2p_msg_send_expected_def send_cmd_def put_op_def wire_form_def Let_def flip: h_def)
qed

section \<open>One-sided transfers\<close>

lemma rma_write_fits:
  assumes "handles_ok w" and "mem_handles w i = Some e" and "unat ofs + length payload \<le> unat (me_buf_size e)"
  shows "rma_write e ofs payload w = Some (w\<lparr>memory := overwrite (me_buf e + unat ofs) payload (memory w)\<rparr>)"
proof -
  have "region (me_buf e) (unat (me_buf_size e)) (memory w)" using assms(1,2) by (simp add: handles_ok_def)
  moreover have "clip_len e ofs (length payload) = length payload" using assms(3) by (simp add: clip_len_def)
  ultimately show ?thesis by (simp add: rma_write_eq)
qed

text \<open>C9: a put gets through: the data read from the initiator's buffer at the time of the call are, after
  the target has handled the stream, at the offset of the buffer that the remote handle names, and
  every byte outside that range is as before.\<close>

theorem put_delivered:
  assumes "op_box w op = Some opv" and "mh_box w lh = Some lhv" and "mh_box w rh = Some rhv" and "addr_box w ra = Some d"
    and "0 < len" and "mh_buf lhv \<noteq> null_ptr" and "load_bytes (mh_buf lhv + unat lo) (unat len) (memory w) = Some data"
    and "unat len < 2 ^ 32" and "\<not> cmd_closed w" and "pid_codec L (peer_id (self_addr w))"
    and "handles_ok (in_na st)" and "mem_handles (in_na st) (mh_handle_id rhv) = Some e"
    and "unat ro + unat len \<le> unat (me_buf_size e)"
  shows "\<exists>w' c bs st'. na_libp2p_put cx cb arg lh lo rh ro len ra op w = Some (NA_SUCCESS, w') \<and>
    cmd_tx w' = cmd_tx w @ [c] \<and> wire_form L c = Some (remote_peer rhv d, bs) \<and>
    handle_incoming_stream (pid_from_bytes L) outcome (stream_of bs) st = Some (Inr (), st') \<and>
    load_bytes (me_buf e + unat ro) (unat len) (memory (in_na st')) = Some data \<and>
    (\<forall>q. q < me_buf e + unat ro \<or> me_buf e + unat ro + unat len \<le> q \<longrightarrow>
       memory (in_na st') q = memory (in_na st) q)"
proof -
  have len: "length data = unat len" using assms(7) by (rule mem.load_length)
  define h :: "'a wire_header" where "h = \<lparr>msg_type = RmaPut, tag = 0, payload_size = of_nat (length data),
    source_peer_id = peer_id (self_addr w), handle_id = mh_handle_id rhv, offset = ro,
    rma_length = of_nat (length data), local_handle_id = 0, local_offset = 0\<rparr>"
  have h: "source_peer_id h = peer_id (self_addr w)" "msg_type h = RmaPut" "handle_id h = mh_handle_id rhv" "offset h = ro"
    "unat (payload_size h) = length data"
    using payload_size_small [of data] assms(8) len by (simp_all add: h_def)
  let ?m = "overwrite (me_buf e + unat ro) data (memory (in_na st))"
  have "handle_rma_put h data (in_na st) = Some ((in_na st)\<lparr>memory := ?m\<rparr>)"
    using rma_write_fits [OF assms(11,12), of ro data] assms(12,13) by (simp add: handle_rma_put_def h len)
  then have "dispatch outcome (h, data) st = Some (Inr (), st\<lparr>in_na := (in_na st)\<lparr>memory := ?m\<rparr>\<rparr>)"
    by (simp add: dispatch_def h(2))
  from stream_one [OF _ h(5) this, of L] assms(10) have
    stream: "handle_incoming_stream (pid_from_bytes L) outcome (stream_of (frame (pid_to_bytes L) (h, data))) st
      = Some (Inr (), st\<lparr>in_na := (in_na st)\<lparr>memory := ?m\<rparr>\<rparr>)" by (simp add: h(1))
  have "load_bytes (me_buf e + unat ro) (unat len) ?m = Some data"
    using load_overwrite [of "me_buf e + unat ro" data] by (simp add: len)
  moreover have "?m q = memory (in_na st) q" if "q < me_buf e + unat ro \<or> me_buf e + unat ro + unat len \<le> q" for q
    using that by (intro overwrite_outside) (auto simp: len)
  ultimately show ?thesis
    using assms(1-7,9) stream
    by (simp add: na_libp2p_put_def put_data_def copy_from_def send_cmd_def put_op_def wire_form_def Let_def
        flip: h_def)
qed

text \<open>
  The bytes of a get: read by the target into its response, written by the initiator when the
  response arrives.
\<close>

lemma get_reply_full:
  assumes "handles_ok w" and "mem_handles w (handle_id h) = Some e"
    and "unat (offset h) + unat (rma_length h) \<le> unat (me_buf_size e)"
  obtains data where "load_bytes (me_buf e + unat (offset h)) (unat (rma_length h)) (memory w) = Some data"
    and "length data = unat (rma_length h)"
    and "rma_get_reply h w = Some (Some
      (\<lparr>msg_type = RmaGetResp, tag = 0, payload_size = of_nat (length data),
        source_peer_id = peer_id (self_addr w), handle_id = handle_id h, offset = offset h,
        rma_length = of_nat (length data), local_handle_id = local_handle_id h,
        local_offset = local_offset h\<rparr>, data))"
proof -
  from rma_read_known [OF assms(1,2)] obtain data where data: "rma_read h w = Some (Some data)"
    "length data = min (unat (rma_length h)) (unat (me_buf_size e) - unat (offset h))"
    "load_bytes (me_buf e + unat (offset h)) (length data) (memory w) = Some data" by blast
  with assms(3) have "length data = unat (rma_length h)" by simp
  with data show ?thesis by (intro that [of data]) (simp_all add: rma_get_reply_def)
qed

text \<open>The pending get that a response names, when no older one has the same key.\<close>

lemma rma_index_last:
  assumes "pending_rma_ops (queues w) = ops @ [p]" and "op_box w p = Some op" and "rma_op_of h op"
    and "\<forall>q\<in>set ops. \<not> rma_op_of h (the (op_box w q))"
  shows "rma_index h w = Some (length ops)"
  using position_append_match [of ops "\<lambda>q. rma_op_of h (the (op_box w q))" p "[]"] assms by (simp add: rma_index_def)

text \<open>The call of a get, and the arrival of its answer while no older get has the same key.\<close>

lemma get_call:
  assumes "op_box w op = Some opv" and "mh_box w lh = Some lhv" and "mh_box w rh = Some rhv" and "addr_box w ra = Some d"
    and "\<not> cmd_closed w"
  obtains w' where "na_libp2p_get cx cb arg lh lo rh ro len ra op w = Some (NA_SUCCESS, w')"
    "op_box w' = (op_box w)(op \<mapsto> opv\<lparr>op_callback := cb, op_arg := arg, op_type := Some CB_GET, op_context := cx,
        op_local_handle_id := mh_handle_id lhv, op_local_offset := lo, op_rma_length := len\<rparr>)"
    "pending_rma_ops (queues w') = pending_rma_ops (queues w) @ [op]" "mem_handles w' = mem_handles w"
    "memory w' = memory w" "completion_rx w' = completion_rx w"
    "cmd_tx w' = cmd_tx w @ [RmaGetRequest (remote_peer rhv d) (mh_handle_id rhv) ro len (mh_handle_id lhv) lo op
        (peer_id (self_addr w))]"
  using assms by (simp add: na_libp2p_get_def send_cmd_def put_op_def Let_def)

lemma get_answer:
  assumes "handles_ok w" and "mem_handles w (local_handle_id h) = Some le"
    and "unat (local_offset h) + length data \<le> unat (me_buf_size le)"
    and "pending_rma_ops (queues w) = ops @ [op]" and "insert op (set ops) \<subseteq> dom (op_box w)"
    and "rma_op_of h (the (op_box w op))" and "\<forall>p\<in>set ops. \<not> rma_op_of h (the (op_box w p))"
  obtains w' where "handle_rma_get_response h data w = Some w'"
    "load_bytes (me_buf le + unat (local_offset h)) (length data) (memory w') = Some data"
    "completion_rx w' = completion_rx w @ [\<lparr>ci_op_ptr = op, ci_result = NA_SUCCESS, ci_recv_info = None\<rparr>]"
    "pending_rma_ops (queues w') = ops"
proof -
  from assms(5) obtain opv where "op_box w op = Some opv" by auto
  with assms(4,6,7) have idx: "rma_index h w = Some (length ops)" by (intro rma_index_last) simp_all
  have clip: "clip_len le (local_offset h) (length data) = length data" using assms(3) by (simp add: clip_len_def)
  have "set (pending_rma_ops (queues w)) \<subseteq> dom (op_box w)" using assms(4,5) by simp
  from get_response_eq [OF assms(1) this, of h data] idx assms(2,4) clip have
    "handle_rma_get_response h data w = Some
      (send_completion \<lparr>ci_op_ptr = op, ci_result = NA_SUCCESS, ci_recv_info = None\<rparr>
         (w\<lparr>queues := (queues w)\<lparr>pending_rma_ops := ops\<rparr>,
            memory := overwrite (me_buf le + unat (local_offset h)) data (memory w)\<rparr>))" by simp
  then show ?thesis by (rule that) (simp_all add: load_overwrite)
qed

text \<open>C10: a get gets through: the request that the call puts on the wire is answered by the target with the
  bytes of the buffer that the remote handle names; when the answer arrives, these bytes are in the
  initiator's registered buffer, the operation completes successfully and is no longer pending. No
  other pending get may name the same local handle and offset, for an answer carries nothing else
  to tell them apart.\<close>

theorem get_delivered:
  assumes "op_box w op = Some opv" and "mh_box w lh = Some lhv" and "mh_box w rh = Some rhv" and "addr_box w ra = Some d"
    and "unat len < 2 ^ 32" and "\<not> cmd_closed w"
    and "handles_ok w" and "mem_handles w (mh_handle_id lhv) = Some le" and "unat lo + unat len \<le> unat (me_buf_size le)"
    and "set (pending_rma_ops (queues w)) \<subseteq> dom (op_box w)" and "op \<notin> set (pending_rma_ops (queues w))"
    and "\<forall>p\<in>set (pending_rma_ops (queues w)). op_local_handle_id (the (op_box w p)) \<noteq> mh_handle_id lhv \<or>
           op_local_offset (the (op_box w p)) \<noteq> lo"
    and "handles_ok wt" and "mem_handles wt (mh_handle_id rhv) = Some e" and "unat ro + unat len \<le> unat (me_buf_size e)"
    and "pid_codec L (peer_id (self_addr w))" and "pid_codec L (peer_id (self_addr wt))"
  shows "\<exists>w' c bs h resp data st'. na_libp2p_get cx cb arg lh lo rh ro len ra op w = Some (NA_SUCCESS, w') \<and>
    cmd_tx w' = cmd_tx w @ [c] \<and> wire_form L c = Some (remote_peer rhv d, bs) \<and>
    read_messages (pid_from_bytes L) (stream_of bs) = ([(h, [])], UnexpectedEof) \<and> msg_type h = RmaGetReq \<and>
    source_peer_id h = peer_id (self_addr w) \<and>
    rma_get_reply h wt = Some (Some (resp, data)) \<and>
    handle_incoming_stream (pid_from_bytes L) outcome (stream_of (frame (pid_to_bytes L) (resp, data)))
      \<lparr>in_na = w', in_pool = pl, in_result = r\<rparr> = Some (Inr (), st') \<and>
    load_bytes (me_buf le + unat lo) (unat len) (memory (in_na st')) = load_bytes (me_buf e + unat ro) (unat len) (memory wt) \<and>
    completion_rx (in_na st') = completion_rx w @ [\<lparr>ci_op_ptr = op, ci_result = NA_SUCCESS, ci_recv_info = None\<rparr>] \<and>
    pending_rma_ops (queues (in_na st')) = pending_rma_ops (queues w)"
proof -
  define h :: "'a wire_header" where "h = \<lparr>msg_type = RmaGetReq, tag = 0, payload_size = 0,
    source_peer_id = peer_id (self_addr w), handle_id = mh_handle_id rhv, offset = ro, rma_length = len,
    local_handle_id = mh_handle_id lhv, local_offset = lo\<rparr>"
  obtain data where data: "load_bytes (me_buf e + unat ro) (unat len) (memory wt) = Some data" "length data = unat len"
    and reply: "rma_get_reply h wt = Some (Some
      (\<lparr>msg_type = RmaGetResp, tag = 0, payload_size = of_nat (length data),
        source_peer_id = peer_id (self_addr wt), handle_id = mh_handle_id rhv, offset = ro,
        rma_length = of_nat (length data), local_handle_id = mh_handle_id lhv, local_offset = lo\<rparr>, data))"
    using get_reply_full [OF assms(13), of h e] assms(14,15) by (auto simp: h_def)
  define resp :: "'a wire_header" where "resp = \<lparr>msg_type = RmaGetResp, tag = 0, payload_size = of_nat (length data),
        source_peer_id = peer_id (self_addr wt), handle_id = mh_handle_id rhv, offset = ro,
        rma_length = of_nat (length data), local_handle_id = mh_handle_id lhv, local_offset = lo\<rparr>"
  have resp: "msg_type resp = RmaGetResp" "local_handle_id resp = mh_handle_id lhv" "local_offset resp = lo"
    "source_peer_id resp = peer_id (self_addr wt)" "unat (payload_size resp) = length data"
    using payload_size_small [of data] assms(5) data by (simp_all add: resp_def)
  obtain w' where run: "na_libp2p_get cx cb arg lh lo rh ro len ra op w = Some (NA_SUCCESS, w')"
    and w': "op_box w' = (op_box w)(op \<mapsto> opv\<lparr>op_callback := cb, op_arg := arg, op_type := Some CB_GET, op_context := cx,
        op_local_handle_id := mh_handle_id lhv, op_local_offset := lo, op_rma_length := len\<rparr>)"
      "pending_rma_ops (queues w') = pending_rma_ops (queues w) @ [op]" "mem_handles w' = mem_handles w"
      "memory w' = memory w" "completion_rx w' = completion_rx w"
      "cmd_tx w' = cmd_tx w @ [RmaGetRequest (remote_peer rhv d) (mh_handle_id rhv) ro len (mh_handle_id lhv) lo op
        (peer_id (self_addr w))]"
    using get_call [OF assms(1-4,6), of cx cb arg lo ro len] by blast
  obtain w2 where w2: "handle_rma_get_response resp data w' = Some w2"
    "load_bytes (me_buf le + unat lo) (unat len) (memory w2) = Some data"
    "completion_rx w2 = completion_rx w @ [\<lparr>ci_op_ptr = op, ci_result = NA_SUCCESS, ci_recv_info = None\<rparr>]"
    "pending_rma_ops (queues w2) = pending_rma_ops (queues w)"
    by (rule get_answer [of w' resp le data "pending_rma_ops (queues w)" op])
      (use assms(7-12) data(2) in \<open>auto simp: resp w' handles_ok_def rma_op_of_def\<close>)
  then have "dispatch outcome (resp, data) \<lparr>in_na = w', in_pool = pl, in_result = r\<rparr>
      = Some (Inr (), \<lparr>in_na = w2, in_pool = pl, in_result = r\<rparr>)"
    by (simp add: dispatch_def resp(1))
  from stream_one [OF _ resp(5) this, of L] assms(17) have
    stream: "handle_incoming_stream (pid_from_bytes L) outcome (stream_of (frame (pid_to_bytes L) (resp, data)))
      \<lparr>in_na = w', in_pool = pl, in_result = r\<rparr> = Some (Inr (), \<lparr>in_na = w2, in_pool = pl, in_result = r\<rparr>)"
    by (simp add: resp(4))
  have "read_messages (pid_from_bytes L) (stream_of (frame (pid_to_bytes L) (h, []))) = ([(h, [])], UnexpectedEof)"
    using assms(16) by (intro read_messages_one) (simp_all add: h_def)
  with run w' w2 reply stream data(1) show ?thesis
    by (auto simp: wire_form_def h_def resp_def)
qed

section \<open>From the relay server to an endpoint\<close>

lemma extract_peer_id_snoc: "extract_peer_id_from_multiaddr (ma @ [P2p p]) = Some p"
  by (simp add: extract_peer_id_from_multiaddr_def)


section \<open>Concrete runs\<close>

lemma example_pid_codec: "pid_codec example_lib p"
  by (simp add: pid_codec_def example_lib_def)

text \<open>A client that sends four bytes, with a local and a remote memory handle.\<close>

definition client_state :: "u8 na_state" where
  "client_state = example_state\<lparr>
     op_box := [10 \<mapsto> example_op, 11 \<mapsto> example_op\<lparr>op_local_handle_id := 8\<rparr>],
     addr_box := [5 \<mapsto> fresh_addr 43], next_box := 20,
     mh_box := [6 \<mapsto> \<lparr>mh_buf = 100, mh_buf_size = 4, mh_handle_id = 9, mh_flags = 0, mh_owner_peer_id = None\<rparr>,
                7 \<mapsto> \<lparr>mh_buf = 0, mh_buf_size = 16, mh_handle_id = 3, mh_flags = 0, mh_owner_peer_id = Some 43\<rparr>],
     mem_handles := [9 \<mapsto> \<lparr>me_buf = 100, me_buf_size = 4, me_flags = 0\<rparr>], next_mem_handle_id := 10,
     memory := (\<lambda>q. if 100 \<le> q \<and> q < 104 then Some (of_nat q) else None),
     queues := operation_queues_new\<lparr>pending_rma_ops := [11]\<rparr>\<rparr>"

lemma client_state_simps [simp]:
  "op_box client_state = [10 \<mapsto> example_op, 11 \<mapsto> example_op\<lparr>op_local_handle_id := 8\<rparr>]"
  "addr_box client_state = [5 \<mapsto> fresh_addr 43]" "self_addr client_state = example_addr"
  "mh_box client_state = [6 \<mapsto> \<lparr>mh_buf = 100, mh_buf_size = 4, mh_handle_id = 9, mh_flags = 0, mh_owner_peer_id = None\<rparr>,
     7 \<mapsto> \<lparr>mh_buf = 0, mh_buf_size = 16, mh_handle_id = 3, mh_flags = 0, mh_owner_peer_id = Some 43\<rparr>]"
  "mem_handles client_state = [9 \<mapsto> \<lparr>me_buf = 100, me_buf_size = 4, me_flags = 0\<rparr>]"
  "pending_rma_ops (queues client_state) = [11]" "cmd_tx client_state = []" "cmd_closed client_state = False"
  "completion_rx client_state = []" "handles_ok client_state"
  by (auto simp: client_state_def handles_ok_def region_def split: if_splits)

lemma client_bytes:
  "load_bytes 100 4 (memory client_state) = Some [100, 101, 102, 103]"
  "message_payload 100 4 client_state = Some [100, 101, 102, 103]"
  by code_simp+

abbreviation endpoint_of :: "u8 na_state \<Rightarrow> u8 incoming_state" where
  "endpoint_of w \<equiv> \<lparr>in_na = w, in_pool = pool_new, in_result = 0\<rparr>"

theorem send_unexpected_delivered_witness:
  "\<exists>w' c bs st'. na_libp2p_msg_send_unexpected 1 0 0 100 4 5 3 10 client_state = Some (NA_SUCCESS, w') \<and>
    cmd_tx w' = [c] \<and> wire_form example_lib c = Some (43, bs) \<and>
    handle_incoming_stream (pid_from_bytes example_lib) (\<lambda>_. None) (stream_of bs) (endpoint_of posted_state)
      = Some (Inr (), st') \<and>
    expected_queue (in_na st') = expected_queue posted_state \<and>
    match_step unexpected_matches (Arrive (42, 3, [100, 101, 102, 103])) (unexpected_queue posted_state)
      = (handed_unexpected (42, 3, [100, 101, 102, 103]) posted_state, unexpected_queue (in_na st'))"
  using send_unexpected_delivered [of client_state 5 "fresh_addr 43" 10 example_op 100 4 "[100, 101, 102, 103]"
      example_lib "endpoint_of posted_state" 1 0 0 3 "\<lambda>_. None"]
  by (simp add: client_bytes(2) MAX_MSG_SIZE_def example_pid_codec fresh_addr_def posted_state_queues example_addr_def)

theorem send_expected_delivered_witness:
  "\<exists>w' c bs st'. na_libp2p_msg_send_expected 1 0 0 100 4 5 3 10 client_state = Some (NA_SUCCESS, w') \<and>
    cmd_tx w' = [c] \<and> wire_form example_lib c = Some (43, bs) \<and>
    handle_incoming_stream (pid_from_bytes example_lib) (\<lambda>_. None) (stream_of bs) (endpoint_of posted_state)
      = Some (Inr (), st') \<and>
    unexpected_queue (in_na st') = unexpected_queue posted_state \<and>
    match_step expected_matches (Arrive (42, 3, [100, 101, 102, 103])) (expected_queue posted_state)
      = (handed_expected (42, 3, [100, 101, 102, 103]) posted_state, expected_queue (in_na st'))"
  using send_expected_delivered [of client_state 5 "fresh_addr 43" 10 example_op 100 4 "[100, 101, 102, 103]"
      example_lib "endpoint_of posted_state" 1 0 0 3 "\<lambda>_. None"]
  by (simp add: client_bytes(2) MAX_MSG_SIZE_def example_pid_codec fresh_addr_def posted_state_queues example_addr_def)

theorem put_delivered_witness:
  "\<exists>w' c bs st'. na_libp2p_put 1 0 0 6 0 7 12 4 5 10 client_state = Some (NA_SUCCESS, w') \<and>
    cmd_tx w' = [c] \<and> wire_form example_lib c = Some (43, bs) \<and>
    handle_incoming_stream (pid_from_bytes example_lib) (\<lambda>_. None) (stream_of bs) (endpoint_of rma_state)
      = Some (Inr (), st') \<and>
    load_bytes 112 4 (memory (in_na st')) = Some [100, 101, 102, 103] \<and>
    (\<forall>q. q < 112 \<or> 116 \<le> q \<longrightarrow> memory (in_na st') q = memory rma_state q)"
  using put_delivered [of client_state 10 example_op 6
      "\<lparr>mh_buf = 100, mh_buf_size = 4, mh_handle_id = 9, mh_flags = 0, mh_owner_peer_id = None\<rparr>" 7
      "\<lparr>mh_buf = 0, mh_buf_size = 16, mh_handle_id = 3, mh_flags = 0, mh_owner_peer_id = Some 43\<rparr>" 5 "fresh_addr 43"
      4 0 "[100, 101, 102, 103]" example_lib "endpoint_of rma_state" rma_entry 12 1 0 0 "\<lambda>_. None"]
  by (simp add: client_bytes(1) example_pid_codec remote_peer_def del: load_bytes.simps)

theorem get_delivered_witness:
  "\<exists>w' c bs h resp data st'. na_libp2p_get 1 0 0 6 0 7 12 4 5 10 client_state = Some (NA_SUCCESS, w') \<and>
    cmd_tx w' = [c] \<and> wire_form example_lib c = Some (43, bs) \<and>
    read_messages (pid_from_bytes example_lib) (stream_of bs) = ([(h, [])], UnexpectedEof) \<and> msg_type h = RmaGetReq \<and>
    rma_get_reply h rma_state = Some (Some (resp, data)) \<and>
    handle_incoming_stream (pid_from_bytes example_lib) (\<lambda>_. None) (stream_of (frame (pid_to_bytes example_lib) (resp, data)))
      (endpoint_of w') = Some (Inr (), st') \<and>
    load_bytes 100 4 (memory (in_na st')) = load_bytes 112 4 (memory rma_state) \<and>
    completion_rx (in_na st') = [\<lparr>ci_op_ptr = 10, ci_result = NA_SUCCESS, ci_recv_info = None\<rparr>] \<and>
    pending_rma_ops (queues (in_na st')) = [11]"
proof -
  note get = get_delivered [of client_state 10 example_op 6
      "\<lparr>mh_buf = 100, mh_buf_size = 4, mh_handle_id = 9, mh_flags = 0, mh_owner_peer_id = None\<rparr>" 7
      "\<lparr>mh_buf = 0, mh_buf_size = 16, mh_handle_id = 3, mh_flags = 0, mh_owner_peer_id = Some 43\<rparr>" 5 "fresh_addr 43"
      4 "\<lparr>me_buf = 100, me_buf_size = 4, me_flags = 0\<rparr>" 0 rma_state rma_entry 12 example_lib 1 0 0 "\<lambda>_. None" pool_new 0]
  show ?thesis
    using get by (simp add: example_pid_codec remote_peer_def del: load_bytes.simps) blast
qed


end
